theory Spec2Isabelle
  imports Main "HOL-Library.Sublist"
begin

section \<open>Values of the processor environment\<close>

text \<open>
  \<^verbatim>\<open>self.env\<close> is a dictionary from option names to values read from a recipe: strings
  and booleans are the values the processor's options take. \<^verbatim>\<open>env.get(k)\<close> is the map
  applied to \<open>k\<close>; Python's truth test (\<^verbatim>\<open>if not x\<close>) is \<open>truthy\<close>, and \<^verbatim>\<open>str(x)\<close> is
  \<open>py_str\<close>.
\<close>

datatype pyval = PStr string | PBool bool

type_synonym env = "string \<rightharpoonup> pyval"

fun truthy :: "pyval option \<Rightarrow> bool" where
  "truthy None = False"
| "truthy (Some (PStr s)) = (s \<noteq> [])"
| "truthy (Some (PBool b)) = b"

fun py_str :: "pyval \<Rightarrow> string" where
  "py_str (PStr s) = s"
| "py_str (PBool b) = (if b then ''True'' else ''False'')"

section \<open>Exceptions and failures\<close>

text \<open>
  \<open>errno\<close> is the error number of an \<^verbatim>\<open>OSError\<close>; \<open>exn\<close> the Python exceptions other
  than \<^verbatim>\<open>ProcessorError\<close> that the processor can meet. \<open>failure\<close> is how an invocation
  of \<^verbatim>\<open>main\<close> ends when it does not return: one constructor for each \<^verbatim>\<open>raise ProcessorError\<close>
  of the source (named after the error kinds of the specification), \<open>ExtractionError\<close>
  for a \<^verbatim>\<open>ProcessorError\<close> raised inside \<^verbatim>\<open>_extract\<close>, \<open>WrappedError\<close> for
  \<^verbatim>\<open>raise ProcessorError(ex)\<close> of line 179, and \<open>Uncaught\<close> for an exception raised
  outside the \<^verbatim>\<open>try\<close> block of lines 125-179, which leaves \<^verbatim>\<open>main\<close> as it is.
\<close>

datatype errno = ENOENT | ENOTDIR | EEXIST | EISDIR | ENOTEMPTY | EINVAL | EBUSY | EACCES

datatype exn =
    NameError string
  | KeyError string
  | TypeError
  | OSError errno
  | ReError string

datatype failure =
    ConfigurationError
  | MissingInputError string
  | CleanupError string string
  | UnrecognizedFormatError string
  | InvalidFormatError string
  | ExtractionError string
  | NotFoundError
  | WrappedError exn
  | Uncaught exn

fun strerror :: "errno \<Rightarrow> string" where
  "strerror ENOENT = ''No such file or directory''"
| "strerror ENOTDIR = ''Not a directory''"
| "strerror EEXIST = ''File exists''"
| "strerror EISDIR = ''Is a directory''"
| "strerror ENOTEMPTY = ''Directory not empty''"
| "strerror EINVAL = ''Invalid argument''"
| "strerror EBUSY = ''Device or resource busy''"
| "strerror EACCES = ''Permission denied''"

section \<open>Paths (\<^verbatim>\<open>pathlib.Path\<close> on POSIX)\<close>

text \<open>
  A \<^verbatim>\<open>pathlib\<close> path is its root (\<open>''''\<close>, \<open>''/''\<close> or \<open>''//''\<close>) and its list of
  components. \<open>parse_path\<close> is \<^verbatim>\<open>pathlib.Path(s)\<close>: the string is cut at every \<open>/\<close>,
  empty components and \<open>.\<close> are dropped, \<open>..\<close> is kept. \<open>join\<close> is the combination of
  two paths (an absolute second path replaces the first), \<open>child\<close> appends one directory
  entry without parsing it, as \<^verbatim>\<open>glob\<close> does for the entries it yields.
\<close>

record path =
  root :: string
  parts :: "string list"

fun str_split :: "char \<Rightarrow> string \<Rightarrow> string list" where
  "str_split sep [] = [[]]"
| "str_split sep (c # cs) =
     (if c = sep then [] # str_split sep cs
      else (case str_split sep cs of [] \<Rightarrow> [[c]] | w # ws \<Rightarrow> (c # w) # ws))"

definition root_of :: "string \<Rightarrow> string" where
  "root_of s =
     (if take 2 s = ''//'' \<and> take 3 s \<noteq> ''///'' then ''//''
      else if take 1 s = ''/'' then ''/'' else [])"

definition parse_path :: "string \<Rightarrow> path" where
  "parse_path s =
     \<lparr>root = root_of s,
      parts = filter (\<lambda>c. c \<noteq> [] \<and> c \<noteq> ''.'') (str_split CHR ''/'' s)\<rparr>"

definition join :: "path \<Rightarrow> path \<Rightarrow> path" where
  "join p q = (if root q \<noteq> [] then q else \<lparr>root = root p, parts = parts p @ parts q\<rparr>)"

definition child :: "path \<Rightarrow> string \<Rightarrow> path" where
  "child p n = p\<lparr>parts := parts p @ [n]\<rparr>"

definition parent :: "path \<Rightarrow> path" where
  "parent p = p\<lparr>parts := butlast (parts p)\<rparr>"

definition name :: "path \<Rightarrow> string" where
  "name p = (if parts p = [] then [] else last (parts p))"

fun slash_join :: "string list \<Rightarrow> string" where
  "slash_join [] = []"
| "slash_join [x] = x"
| "slash_join (x # y # ys) = x @ ''/'' @ slash_join (y # ys)"

definition path_str :: "path \<Rightarrow> string" where
  "path_str p =
     (if root p = [] \<and> parts p = [] then ''.'' else root p @ slash_join (parts p))"

text \<open>
  \<^verbatim>\<open>PurePath.suffix\<close>: with \<open>i\<close> the index of the last dot of the name, the suffix is
  \<^verbatim>\<open>name[i:]\<close> when \<^verbatim>\<open>0 < i < len(name) - 1\<close> and empty otherwise.
\<close>

definition suffix_of :: "string \<Rightarrow> string" where
  "suffix_of nm =
     (let ext = rev (takeWhile (\<lambda>c. c \<noteq> CHR ''.'') (rev nm))
      in if CHR ''.'' \<in> set nm \<and> ext \<noteq> [] \<and> length ext + 1 < length nm
         then CHR ''.'' # ext else [])"

section \<open>The filesystem\<close>

text \<open>
  The filesystem is a tree of directory entries. A directory lists its entries in
  listing order (the order \<^verbatim>\<open>scandir\<close> reports them in); a symbolic link records what it
  resolves to, and its target lies outside the tree: a link is never walked through.
  \<open>cwd\<close> is the location of the working directory, against which a relative path is
  resolved. \<open>deny\<close> lists the locations at which the operating system refuses a
  change, with the error it reports (permissions are not modelled otherwise).
\<close>

datatype target = Dangling | ToFile | ToDir

datatype node = File | Symlink target | Dir "(string \<times> node) list"

record fsys =
  tree :: node
  cwd :: "string list"
  deny :: "(string list \<times> errno) list"

fun lookup :: "node \<Rightarrow> string list \<Rightarrow> node option" where
  "lookup n [] = Some n"
| "lookup (Dir es) (c # cs) = (case map_of es c of None \<Rightarrow> None | Some m \<Rightarrow> lookup m cs)"
| "lookup _ (c # cs) = None"

definition dir_at :: "node \<Rightarrow> string list \<Rightarrow> bool" where
  "dir_at t loc = (case lookup t loc of Some (Dir es) \<Rightarrow> True | _ \<Rightarrow> False)"

text \<open>
  Path resolution: every component is taken from a directory (\<open>ENOENT\<close> when the
  location walked so far is absent, \<open>ENOTDIR\<close> when it is not a directory), and \<open>..\<close>
  steps back to the parent. The location of the last component need not exist.
\<close>

fun walk :: "node \<Rightarrow> string list \<Rightarrow> string list \<Rightarrow> errno + string list" where
  "walk t acc [] = Inr acc"
| "walk t acc (c # cs) =
     (case lookup t acc of
        None \<Rightarrow> Inl ENOENT
      | Some (Dir es) \<Rightarrow> walk t (if c = ''..'' then butlast acc else acc @ [c]) cs
      | Some _ \<Rightarrow> Inl ENOTDIR)"

definition locate :: "fsys \<Rightarrow> path \<Rightarrow> errno + string list" where
  "locate fs p = walk (tree fs) (if root p = [] then cwd fs else []) (parts p)"

definition lstat :: "fsys \<Rightarrow> path \<Rightarrow> node option" where
  "lstat fs p = (case locate fs p of Inl e \<Rightarrow> None | Inr loc \<Rightarrow> lookup (tree fs) loc)"

definition exists :: "fsys \<Rightarrow> path \<Rightarrow> bool" where
  "exists fs p =
     (case lstat fs p of None \<Rightarrow> False | Some (Symlink Dangling) \<Rightarrow> False | Some _ \<Rightarrow> True)"

definition is_dir :: "fsys \<Rightarrow> path \<Rightarrow> bool" where
  "is_dir fs p =
     (case lstat fs p of Some (Dir es) \<Rightarrow> True | Some (Symlink ToDir) \<Rightarrow> True | _ \<Rightarrow> False)"

definition is_symlink :: "fsys \<Rightarrow> path \<Rightarrow> bool" where
  "is_symlink fs p = (case lstat fs p of Some (Symlink t) \<Rightarrow> True | _ \<Rightarrow> False)"

text \<open>
  \<^verbatim>\<open>os.scandir\<close>: the names of a directory's entries in listing order, without \<open>.\<close> and
  \<open>..\<close>. \<^verbatim>\<open>Path.glob\<close> yields nothing when the path is not a directory. The target of
  a symbolic link is outside the tree, so a path that is a link to a directory lists
  no entries here: the listing is that of real directories.
\<close>

definition scandir :: "fsys \<Rightarrow> path \<Rightarrow> string list" where
  "scandir fs p =
     (case lstat fs p of
        Some (Dir es) \<Rightarrow> filter (\<lambda>n. n \<noteq> ''.'' \<and> n \<noteq> ''..'') (map fst es)
      | _ \<Rightarrow> [])"

text \<open>
  \<^verbatim>\<open>Path.glob(pattern)\<close> for the two patterns of the source. \<^verbatim>\<open>pathlib\<close> matches an
  entry's name against the translated pattern (\<^verbatim>\<open>fnmatch.translate\<close>): \<open>*\<close> matches every
  name, a leading dot included, and \<open>*.dmg\<close> every name that ends in \<open>.dmg\<close>.
\<close>

definition glob_all :: "fsys \<Rightarrow> path \<Rightarrow> path list" where
  "glob_all fs p = map (child p) (scandir fs p)"

definition glob_dmg :: "fsys \<Rightarrow> path \<Rightarrow> path list" where
  "glob_dmg fs p = map (child p) (filter (suffix ''.dmg'') (scandir fs p))"

text \<open>Changing the entries of the directory at a location.\<close>

fun modify ::
  "node \<Rightarrow> string list \<Rightarrow> ((string \<times> node) list \<Rightarrow> (string \<times> node) list) \<Rightarrow> node" where
  "modify (Dir es) [] f = Dir (f es)"
| "modify (Dir es) (c # cs) f =
     Dir (map (\<lambda>(k, m). if k = c then (k, modify m cs f) else (k, m)) es)"
| "modify n _ f = n"

definition remove_entry :: "string \<Rightarrow> (string \<times> node) list \<Rightarrow> (string \<times> node) list" where
  "remove_entry n es = filter (\<lambda>(k, m). k \<noteq> n) es"

definition put_entry ::
  "string \<Rightarrow> node \<Rightarrow> (string \<times> node) list \<Rightarrow> (string \<times> node) list" where
  "put_entry n x es =
     (case map_of es n of
        None \<Rightarrow> es @ [(n, x)]
      | Some y \<Rightarrow> map (\<lambda>(k, m). if k = n then (k, x) else (k, m)) es)"

definition remove_at :: "fsys \<Rightarrow> string list \<Rightarrow> fsys" where
  "remove_at fs loc = fs\<lparr>tree := modify (tree fs) (butlast loc) (remove_entry (last loc))\<rparr>"

definition put_at :: "fsys \<Rightarrow> string list \<Rightarrow> node \<Rightarrow> fsys" where
  "put_at fs loc x = fs\<lparr>tree := modify (tree fs) (butlast loc) (put_entry (last loc) x)\<rparr>"

text \<open>
  \<^verbatim>\<open>os.unlink\<close>: removes a file or a symbolic link; a directory is refused.
\<close>

definition unlink :: "fsys \<Rightarrow> path \<Rightarrow> errno + fsys" where
  "unlink fs p =
     (case locate fs p of
        Inl e \<Rightarrow> Inl e
      | Inr loc \<Rightarrow>
          (case lookup (tree fs) loc of
             None \<Rightarrow> Inl ENOENT
           | Some (Dir es) \<Rightarrow> Inl EISDIR
           | Some _ \<Rightarrow>
               (case map_of (deny fs) loc of
                  Some e \<Rightarrow> Inl e
                | None \<Rightarrow> if loc = [] then Inl EBUSY else Inr (remove_at fs loc))))"

text \<open>
  \<^verbatim>\<open>os.mkdir\<close>: creates one directory; its parent must be a directory and the entry
  must not exist yet.
\<close>

definition os_mkdir :: "fsys \<Rightarrow> path \<Rightarrow> errno + fsys" where
  "os_mkdir fs p =
     (case locate fs p of
        Inl e \<Rightarrow> Inl e
      | Inr loc \<Rightarrow>
          (case lookup (tree fs) loc of
             Some x \<Rightarrow> Inl EEXIST
           | None \<Rightarrow>
               if parts p = [] \<or> last (parts p) = ''..'' \<or> loc = [] then Inl ENOENT
               else (case map_of (deny fs) loc of
                       Some e \<Rightarrow> Inl e
                     | None \<Rightarrow> Inr (put_at fs loc (Dir [])))))"

text \<open>
  \<^verbatim>\<open>Path.mkdir(parents=True, exist_ok=True)\<close>, as \<^verbatim>\<open>pathlib\<close> writes it: try
  \<^verbatim>\<open>os.mkdir\<close>; on \<^verbatim>\<open>FileNotFoundError\<close> create the parent the same way and try once
  more without \<^verbatim>\<open>parents\<close>; any other \<^verbatim>\<open>OSError\<close> is ignored when the path is a directory.
  The result carries the filesystem as the call leaves it, also when it raises.
\<close>

definition mkdir_exist_ok :: "fsys \<Rightarrow> path \<Rightarrow> errno option \<times> fsys" where
  "mkdir_exist_ok fs p =
     (case os_mkdir fs p of
        Inr fs' \<Rightarrow> (None, fs')
      | Inl e \<Rightarrow> if e \<noteq> ENOENT \<and> is_dir fs p then (None, fs) else (Some e, fs))"

function mkdir_parents :: "fsys \<Rightarrow> path \<Rightarrow> errno option \<times> fsys" where
  "mkdir_parents fs p =
     (case os_mkdir fs p of
        Inr fs' \<Rightarrow> (None, fs')
      | Inl e \<Rightarrow>
          if e = ENOENT then
            (if parent p = p then (Some e, fs)
             else (case mkdir_parents fs (parent p) of
                     (Some e', fs') \<Rightarrow> (Some e', fs')
                   | (None, fs') \<Rightarrow> mkdir_exist_ok fs' p))
          else if is_dir fs p then (None, fs) else (Some e, fs))"
  by pat_completeness auto
termination
proof (relation "measure (\<lambda>(fs, p). length (parts p))")
  show "wf (measure (\<lambda>(fs, p). length (parts p)))" by simp
next
  fix fs :: fsys and p :: path and e :: errno
  assume "parent p \<noteq> p"
  then have "parts p \<noteq> []" by (auto simp: parent_def)
  then show "((fs, parent p), (fs, p)) \<in> measure (\<lambda>(fs, p). length (parts p))"
    by (simp add: parent_def)
qed

declare mkdir_parents.simps [simp del]

text \<open>
  \<^verbatim>\<open>os.rename\<close>: the source must exist; a path that ends in \<open>..\<close> or has no component is
  refused; renaming a path to itself does nothing; a directory cannot move below
  itself (\<open>EINVAL\<close>), and nothing can replace a directory it lies in (\<open>ENOTEMPTY\<close>);
  an existing target is replaced when it is a file (by a file) or an empty directory
  (by a directory).
\<close>

definition rename :: "fsys \<Rightarrow> path \<Rightarrow> path \<Rightarrow> errno + fsys" where
  "rename fs src dst =
     (case locate fs src of
        Inl e \<Rightarrow> Inl e
      | Inr s \<Rightarrow>
     (case lookup (tree fs) s of
        None \<Rightarrow> Inl ENOENT
      | Some x \<Rightarrow>
     (case locate fs dst of
        Inl e \<Rightarrow> Inl e
      | Inr d \<Rightarrow>
          if parts src = [] \<or> last (parts src) = ''..'' \<or> s = [] then Inl EBUSY
          else if parts dst = [] \<or> last (parts dst) = ''..'' \<or> d = [] then Inl EBUSY
          else if s = d then Inr fs
          else if prefix s d then Inl EINVAL
          else if prefix d s then Inl ENOTEMPTY
          else (case map_of (deny fs) s of Some e \<Rightarrow> Inl e | None \<Rightarrow>
               (case map_of (deny fs) d of Some e \<Rightarrow> Inl e | None \<Rightarrow>
               (case (lookup (tree fs) d, x) of
                  (None, _) \<Rightarrow> Inr (put_at (remove_at fs s) d x)
                | (Some (Dir es), Dir xs) \<Rightarrow>
                    if es = [] then Inr (put_at (remove_at fs s) d x) else Inl ENOTEMPTY
                | (Some (Dir es), _) \<Rightarrow> Inl EISDIR
                | (Some _, Dir xs) \<Rightarrow> Inl ENOTDIR
                | (Some _, _) \<Rightarrow> Inr (put_at (remove_at fs s) d x)))))))"

section \<open>Collaborators\<close>

text \<open>
  The processor inherits \<^verbatim>\<open>get_archive_format\<close> and \<^verbatim>\<open>_extract\<close> from
  \<^verbatim>\<open>autopkglib.Unarchiver\<close> and calls \<^verbatim>\<open>re.match\<close>; none of the three is part of this
  repository, so \<^verbatim>\<open>main\<close> takes them as parameters. \<^verbatim>\<open>get_archive_format\<close> returns a
  format name or \<^verbatim>\<open>None\<close>. \<^verbatim>\<open>_extract\<close> (\<open>extract_archive\<close>) changes the filesystem and
  either returns or raises; what it raises reaches the caller of \<^verbatim>\<open>main\<close> as a
  \<^verbatim>\<open>ProcessorError\<close> with a message, directly or through line 179. \<open>re_engine\<close> is \<^verbatim>\<open>re.match\<close> for patterns
  with regular-expression operators; it may raise (\<^verbatim>\<open>re.error\<close>).
\<close>

record host =
  get_archive_format :: "string \<Rightarrow> string option"
  extract_archive :: "string \<Rightarrow> string \<Rightarrow> string \<Rightarrow> fsys \<Rightarrow> string option \<times> fsys"
  re_engine :: "string \<Rightarrow> string \<Rightarrow> exn + bool"

definition EXTNS :: "(string \<times> string list) list" where
  "EXTNS =
     [(''zip'', [''zip'']),
      (''tar_gzip'', [''tar.gz'', ''tgz'']),
      (''tar_bzip2'', [''tar.bz2'', ''tbz'']),
      (''tar'', [''tar'']),
      (''gzip'', [''gzip''])]"

text \<open>
  Modelled from the spec: \<^verbatim>\<open>get_archive_format\<close>, which the source calls at line 136 and
  which lives in \<^verbatim>\<open>autopkglib.Unarchiver\<close>, outside this repository. The specification
  (section 4.4) gives a closed, ordered table of suffix groups and says that the
  longest matching suffix wins; a filename that matches no suffix has no format.
\<close>

definition SUFFIX_GROUPS :: "(string \<times> string list) list" where
  "SUFFIX_GROUPS =
     [(''zip'', [''.zip'']),
      (''tar_gzip'', [''.tar.gz'', ''.tgz'']),
      (''tar_bzip2'', [''.tar.bz2'', ''.tbz'']),
      (''tar'', [''.tar'']),
      (''gzip'', [''.gzip''])]"

definition candidates :: "string \<Rightarrow> (string \<times> string) list" where
  "candidates filename =
     concat (map (\<lambda>(tag, sfxs). map (\<lambda>s. (s, tag)) (filter (\<lambda>s. suffix s filename) sfxs))
       SUFFIX_GROUPS)"

fun longest :: "(string \<times> string) list \<Rightarrow> (string \<times> string) option" where
  "longest [] = None"
| "longest (c # cs) =
     (case longest cs of
        None \<Rightarrow> Some c
      | Some d \<Rightarrow> if length (fst c) < length (fst d) then Some d else Some c)"

definition detect_format :: "string \<Rightarrow> string option" where
  "detect_format filename = map_option snd (longest (candidates filename))"

section \<open>The processor: \<^verbatim>\<open>HudlFileManager.main\<close>\<close>

subsection \<open>Lines 93-110: the inputs\<close>

text \<open>
  \<^verbatim>\<open>self.env.get("archive_path", self.env.get("pathname"))\<close>; \<^verbatim>\<open>pathlib.Path(v)\<close> raises
  \<^verbatim>\<open>TypeError\<close> for a value that is not a string. The default of \<^verbatim>\<open>destination_path\<close> is an
  argument of \<^verbatim>\<open>env.get\<close>, so Python evaluates it (and \<^verbatim>\<open>env["RECIPE_CACHE_DIR"]\<close>,
  \<^verbatim>\<open>env["NAME"]\<close>) whether the option is set or not. Nothing here is inside a \<^verbatim>\<open>try\<close>.
\<close>

definition get_pathname :: "env \<Rightarrow> pyval option" where
  "get_pathname env =
     (case env ''archive_path'' of Some v \<Rightarrow> Some v | None \<Rightarrow> env ''pathname'')"

fun to_path :: "pyval \<Rightarrow> exn + path" where
  "to_path (PStr s) = Inr (parse_path s)"
| "to_path (PBool b) = Inl TypeError"

definition default_destination :: "env \<Rightarrow> exn + path" where
  "default_destination env =
     (case env ''RECIPE_CACHE_DIR'' of
        None \<Rightarrow> Inl (KeyError ''RECIPE_CACHE_DIR'')
      | Some c \<Rightarrow>
          (case env ''NAME'' of
             None \<Rightarrow> Inl (KeyError ''NAME'')
           | Some n \<Rightarrow>
               (case to_path c of
                  Inl e \<Rightarrow> Inl e
                | Inr pc \<Rightarrow> (case to_path n of Inl e \<Rightarrow> Inl e | Inr pn \<Rightarrow> Inr (join pc pn)))))"

definition resolve_inputs :: "env \<Rightarrow> fsys \<Rightarrow> failure + path \<times> path" where
  "resolve_inputs env fs =
     (case get_pathname env of
        None \<Rightarrow> Inl ConfigurationError
      | Some v \<Rightarrow>
          if \<not> truthy (Some v) then Inl ConfigurationError
          else (case to_path v of
             Inl e \<Rightarrow> Inl (Uncaught e)
           | Inr pathname \<Rightarrow>
               if \<not> exists fs pathname then Inl (MissingInputError (path_str pathname))
               else (case default_destination env of
                  Inl e \<Rightarrow> Inl (Uncaught e)
                | Inr dflt \<Rightarrow>
                    (case env ''destination_path'' of
                       None \<Rightarrow> Inr (pathname, dflt)
                     | Some d \<Rightarrow>
                         (case to_path d of
                            Inl e \<Rightarrow> Inl (Uncaught e)
                          | Inr destination_path \<Rightarrow> Inr (pathname, destination_path))))))"

subsection \<open>Lines 111-123: the destination directory\<close>

text \<open>
  The loop over \<^verbatim>\<open>destination_path.glob("*")\<close>. For a directory that is not a symbolic
  link the source evaluates \<^verbatim>\<open>shutil.rmtree(path)\<close>: no variable \<^verbatim>\<open>path\<close> is bound in
  \<^verbatim>\<open>main\<close> or in the module, so evaluating the argument raises \<^verbatim>\<open>NameError\<close> before
  \<^verbatim>\<open>rmtree\<close> is called; the handler catches \<^verbatim>\<open>OSError\<close> only.
\<close>

fun purge :: "fsys \<Rightarrow> path list \<Rightarrow> failure option \<times> fsys" where
  "purge fs [] = (None, fs)"
| "purge fs (file_path # rest) =
     (if is_dir fs file_path \<and> \<not> is_symlink fs file_path
      then (Some (Uncaught (NameError ''path'')), fs)
      else (case unlink fs file_path of
              Inl e \<Rightarrow> (Some (CleanupError (path_str file_path) (strerror e)), fs)
            | Inr fs' \<Rightarrow> purge fs' rest))"

definition prepare_destination :: "env \<Rightarrow> fsys \<Rightarrow> path \<Rightarrow> failure option \<times> fsys" where
  "prepare_destination env fs destination_path =
     (case mkdir_parents fs destination_path of
        (Some e, fs1) \<Rightarrow> (Some (Uncaught (OSError e)), fs1)
      | (None, fs1) \<Rightarrow>
          if truthy (env ''purge_destination'')
          then purge fs1 (glob_all fs1 destination_path)
          else (None, fs1))"

subsection \<open>Lines 125-179: renaming, unpacking and finding the disk image\<close>

text \<open>
  \<^verbatim>\<open>pathname.joinpath(pathname.parent, pathname.name.split("?")[0])\<close>: the path itself,
  combined with its parent, combined with the parsed string.
\<close>

definition new_pathname :: "path \<Rightarrow> path" where
  "new_pathname pathname =
     join (join pathname (parent pathname))
       (parse_path (hd (str_split CHR ''?'' (name pathname))))"

text \<open>
  \<^verbatim>\<open>re.match(rf"{recipe_name}.*\.dmg", file_path.name)\<close>: the name of the recipe is part
  of the pattern as it is. When it has no regular-expression operator it matches
  itself, and the pattern matches a name that starts with it, goes on with characters
  other than a newline, and then has \<open>.dmg\<close>; what follows is not looked at
  (\<open>literal_match\<close>; \<open>dotstar_then lit s\<close> is a match of \<^verbatim>\<open>.*\<close> followed by the text
  \<open>lit\<close> at the start of \<open>s\<close>). Any other pattern is given to \<open>re_engine\<close>.
\<close>

definition regex_special :: "char \<Rightarrow> bool" where
  "regex_special c = (c \<in> set (''.^$*+?{}[]|()'' @ [CHR 0x5C]))"

fun dotstar_then :: "string \<Rightarrow> string \<Rightarrow> bool" where
  "dotstar_then lit [] = (lit = [])"
| "dotstar_then lit (c # cs) = (prefix lit (c # cs) \<or> (c \<noteq> CHR 0x0A \<and> dotstar_then lit cs))"

definition literal_match :: "string \<Rightarrow> string \<Rightarrow> bool" where
  "literal_match recipe_name nm =
     (prefix recipe_name nm \<and> dotstar_then ''.dmg'' (drop (length recipe_name) nm))"

definition re_match :: "host \<Rightarrow> string \<Rightarrow> string \<Rightarrow> exn + bool" where
  "re_match H recipe_name nm =
     (if list_ex regex_special recipe_name
      then re_engine H (recipe_name @ ''.*'' @ [CHR 0x5C] @ ''.dmg'') nm
      else Inr (literal_match recipe_name nm))"

fun find_dmg :: "host \<Rightarrow> string \<Rightarrow> path list \<Rightarrow> exn + path option" where
  "find_dmg H recipe_name [] = Inr None"
| "find_dmg H recipe_name (file_path # rest) =
     (case re_match H recipe_name (name file_path) of
        Inl e \<Rightarrow> Inl e
      | Inr matched \<Rightarrow>
          if matched then Inr (Some file_path) else find_dmg H recipe_name rest)"

definition final_check :: "env \<Rightarrow> fsys \<Rightarrow> (failure + unit) \<times> env \<times> fsys" where
  "final_check env fs =
     (if \<not> truthy (env ''dmg_path'') then (Inl NotFoundError, env, fs) else (Inr (), env, fs))"

text \<open>
  Lines 159-171, reached after the archive is unpacked: the first entry of
  \<^verbatim>\<open>destination_path.glob("*.dmg")\<close> that the pattern matches is stored in
  \<^verbatim>\<open>env["dmg_path"]\<close>, then the final check reads \<^verbatim>\<open>env.get("dmg_path")\<close>.
\<close>

definition locate_dmg ::
  "host \<Rightarrow> env \<Rightarrow> fsys \<Rightarrow> path \<Rightarrow> (failure + unit) \<times> env \<times> fsys" where
  "locate_dmg H env fs destination_path =
     (case env ''NAME'' of
        None \<Rightarrow> (Inl (WrappedError (KeyError ''NAME'')), env, fs)
      | Some recipe_name \<Rightarrow>
          (case find_dmg H (py_str recipe_name) (glob_dmg fs destination_path) of
             Inl e \<Rightarrow> (Inl (WrappedError e), env, fs)
           | Inr None \<Rightarrow> final_check env fs
           | Inr (Some file_path) \<Rightarrow>
               final_check (env(''dmg_path'' \<mapsto> PStr (path_str file_path))) fs))"

text \<open>
  The body of the \<^verbatim>\<open>try\<close> block. An exception other than \<^verbatim>\<open>ProcessorError\<close> is caught at
  line 178 and raised again as a \<^verbatim>\<open>ProcessorError\<close>.
\<close>

definition process ::
  "host \<Rightarrow> env \<Rightarrow> fsys \<Rightarrow> path \<Rightarrow> path \<Rightarrow> (failure + unit) \<times> env \<times> fsys" where
  "process H env fs pathname destination_path =
     (case rename fs pathname (new_pathname pathname) of
        Inl e \<Rightarrow> (Inl (WrappedError (OSError e)), env, fs)
      | Inr fs1 \<Rightarrow>
          if suffix_of (name (new_pathname pathname)) = ''.dmg''
          then final_check (env(''dmg_path'' \<mapsto> PStr (path_str (new_pathname pathname)))) fs1
          else (case get_archive_format H (path_str (new_pathname pathname)) of
             None \<Rightarrow> (Inl (UnrecognizedFormatError (name (new_pathname pathname))), env, fs1)
           | Some file_fmt \<Rightarrow>
               if file_fmt = []
               then (Inl (UnrecognizedFormatError (name (new_pathname pathname))), env, fs1)
               else if file_fmt \<notin> set (map fst EXTNS)
               then (Inl (InvalidFormatError file_fmt), env, fs1)
               else (case extract_archive H file_fmt (path_str (new_pathname pathname))
                            (path_str destination_path) fs1 of
                  (Some msg, fs2) \<Rightarrow> (Inl (ExtractionError msg), env, fs2)
                | (None, fs2) \<Rightarrow> locate_dmg H env fs2 destination_path)))"

definition main :: "host \<Rightarrow> env \<Rightarrow> fsys \<Rightarrow> (failure + unit) \<times> env \<times> fsys" where
  "main H env fs =
     (case resolve_inputs env fs of
        Inl f \<Rightarrow> (Inl f, env, fs)
      | Inr (pathname, destination_path) \<Rightarrow>
          (case prepare_destination env fs destination_path of
             (Some f, fs1) \<Rightarrow> (Inl f, env, fs1)
           | (None, fs1) \<Rightarrow> process H env fs1 pathname destination_path))"

section \<open>Concrete inputs\<close>

text \<open>
  A small filesystem, environments and collaborators on which the processor is run
  below. The downloads are in \<open>/dl\<close>; the working directory is \<open>/work\<close>; the cache
  directory \<open>/cache\<close> holds the destination \<open>App\<close> (a file, a subdirectory and a hidden
  file) and the destination \<open>Tool\<close> (a hidden file and a file).
\<close>

definition demo_fs :: fsys where
  "demo_fs =
     \<lparr>tree = Dir
        [(''dl'', Dir [(''bundle.zip'', File),
                       (''app-installer.dmg?sig=abc123'', File),
                       (''notes.txt'', File)]),
         (''cache'', Dir [(''App'', Dir [(''old.txt'', File),
                                         (''sub'', Dir [(''x'', File)]),
                                         (''.hidden'', File)]),
                          (''Tool'', Dir [(''.hidden'', File), (''old.txt'', File)])]),
         (''work'', Dir [(''app.dmg'', File),
                         (''dl'', Dir [(''app.zip?sig=1'', File)])])],
      cwd = [''work''],
      deny = []\<rparr>"

definition demo_env :: "string \<Rightarrow> string \<Rightarrow> bool \<Rightarrow> env" where
  "demo_env pathname recipe_name purge_destination =
     [''pathname'' \<mapsto> PStr pathname,
      ''RECIPE_CACHE_DIR'' \<mapsto> PStr ''/cache'',
      ''NAME'' \<mapsto> PStr recipe_name,
      ''purge_destination'' \<mapsto> PBool purge_destination]"

text \<open>
  Two collaborators. Both take the format from the table of the specification and have
  no regular-expression engine. The first unpacks nothing; the second unpacks three
  entries into \<open>/cache/Tool\<close>.
\<close>

definition no_engine :: "string \<Rightarrow> string \<Rightarrow> exn + bool" where
  "no_engine pattern nm = Inl (ReError pattern)"

definition empty_archive :: host where
  "empty_archive =
     \<lparr>get_archive_format = detect_format,
      extract_archive = (\<lambda>file_fmt archive_path destination fs. (None, fs)),
      re_engine = no_engine\<rparr>"

definition tool_archive :: host where
  "tool_archive =
     \<lparr>get_archive_format = detect_format,
      extract_archive = (\<lambda>file_fmt archive_path destination fs.
         (None, put_at (put_at (put_at fs [''cache'', ''Tool'', ''README.txt''] File)
                          [''cache'', ''Tool'', ''Other-3.dmg''] File)
                  [''cache'', ''Tool'', ''Tool-1.2.dmg''] File)),
      re_engine = no_engine\<rparr>"

section \<open>Auxiliary facts\<close>

lemma slash_join_nonempty: "ps \<noteq> [] \<Longrightarrow> last ps \<noteq> [] \<Longrightarrow> slash_join ps \<noteq> []"
  by (induction ps rule: slash_join.induct) auto

lemma path_str_nonempty: "parts p \<noteq> [] \<Longrightarrow> last (parts p) \<noteq> [] \<Longrightarrow> path_str p \<noteq> []"
  by (simp add: path_str_def slash_join_nonempty)

lemma suffix_of_is_suffix: "suffix_of nm = x \<Longrightarrow> x \<noteq> [] \<Longrightarrow> suffix x nm"
proof -
  assume a: "suffix_of nm = x" and b: "x \<noteq> []"
  let ?P = "\<lambda>c. c \<noteq> CHR ''.''"
  from a b have dot: "CHR ''.'' \<in> set nm" and x: "x = CHR ''.'' # rev (takeWhile ?P (rev nm))"
    by (auto simp: suffix_of_def Let_def split: if_splits)
  from dot have "dropWhile ?P (rev nm) \<noteq> []" by (auto simp: dropWhile_eq_Nil_conv)
  moreover have "\<not> ?P (hd (dropWhile ?P (rev nm)))" using calculation by (rule hd_dropWhile)
  ultimately obtain r where r: "dropWhile ?P (rev nm) = CHR ''.'' # r"
    by (cases "dropWhile ?P (rev nm)") auto
  have "rev nm = takeWhile ?P (rev nm) @ dropWhile ?P (rev nm)" by simp
  then have "rev nm = takeWhile ?P (rev nm) @ CHR ''.'' # r" using r by simp
  then have "rev (rev nm) = rev (takeWhile ?P (rev nm) @ CHR ''.'' # r)" by (rule arg_cong)
  then have "nm = rev r @ CHR ''.'' # rev (takeWhile ?P (rev nm))" by simp
  then show ?thesis unfolding x suffix_def by blast
qed

lemma name_nonempty_parts: "name p \<noteq> [] \<Longrightarrow> parts p \<noteq> [] \<and> last (parts p) \<noteq> []"
  by (auto simp: name_def split: if_splits)

lemma suffix_of_dmg_path_str: "suffix_of (name p) = ''.dmg'' \<Longrightarrow> path_str p \<noteq> []"
proof -
  assume "suffix_of (name p) = ''.dmg''"
  then have "suffix ''.dmg'' (name p)" by (rule suffix_of_is_suffix) simp
  then have "name p \<noteq> []" by (auto simp: suffix_def)
  then show ?thesis using name_nonempty_parts path_str_nonempty by blast
qed

lemma find_dmg_member: "find_dmg H rn ps = Inr (Some fp) \<Longrightarrow> fp \<in> set ps"
  by (induction ps) (auto split: sum.splits if_splits)

lemma glob_dmg_path_str: "fp \<in> set (glob_dmg fs d) \<Longrightarrow> path_str fp \<noteq> []"
proof -
  assume "fp \<in> set (glob_dmg fs d)"
  then obtain n where n: "fp = child d n" "suffix ''.dmg'' n" by (auto simp: glob_dmg_def)
  then have "n \<noteq> []" by (auto simp: suffix_def)
  with n show ?thesis by (intro path_str_nonempty) (simp_all add: child_def)
qed


lemma locate_dmg_never_NotFound:
  assumes "truthy (env ''dmg_path'')"
  shows "fst (locate_dmg H env fs d) \<noteq> Inl NotFoundError"
proof (cases "env ''NAME''")
  case None
  then show ?thesis by (simp add: locate_dmg_def)
next
  case (Some rn)
  show ?thesis
  proof (cases "find_dmg H (py_str rn) (glob_dmg fs d)")
    case (Inl e)
    with Some show ?thesis by (simp add: locate_dmg_def)
  next
    case (Inr r)
    show ?thesis
    proof (cases r)
      case None
      with Some Inr assms show ?thesis by (simp add: locate_dmg_def final_check_def)
    next
      case (Some fp)
      with Inr have "fp \<in> set (glob_dmg fs d)" by (auto dest: find_dmg_member)
      then have "path_str fp \<noteq> []" by (rule glob_dmg_path_str)
      with Some Inr \<open>env ''NAME'' = Some rn\<close> show ?thesis
        by (simp add: locate_dmg_def final_check_def)
    qed
  qed
qed

lemma process_never_NotFound:
  assumes "truthy (env ''dmg_path'')"
  shows "fst (process H env fs pathname dest) \<noteq> Inl NotFoundError"
proof (cases "rename fs pathname (new_pathname pathname)")
  case (Inl e)
  then show ?thesis by (simp add: process_def)
next
  case (Inr fs1)
  show ?thesis
  proof (cases "suffix_of (name (new_pathname pathname)) = ''.dmg''")
    case True
    then have "path_str (new_pathname pathname) \<noteq> []" by (rule suffix_of_dmg_path_str)
    with True Inr show ?thesis by (simp add: process_def final_check_def)
  next
    case False
    show ?thesis
    proof (cases "get_archive_format H (path_str (new_pathname pathname))")
      case None
      with False Inr show ?thesis by (simp add: process_def)
    next
      case (Some fmt)
      obtain r fs2 where x: "extract_archive H fmt (path_str (new_pathname pathname))
          (path_str dest) fs1 = (r, fs2)" by (cases "extract_archive H fmt (path_str (new_pathname pathname))
          (path_str dest) fs1")
      show ?thesis
      proof (cases r)
        case None
        with False Inr Some x locate_dmg_never_NotFound[of env H fs2 dest, OF assms]
        show ?thesis by (simp add: process_def)
      next
        case (Some msg)
        with False Inr \<open>get_archive_format H (path_str (new_pathname pathname)) = Some fmt\<close> x
        show ?thesis by (simp add: process_def)
      qed
    qed
  qed
qed


lemma purge_never_NotFound: "purge fs ps = (Some f, fs') \<Longrightarrow> f \<noteq> NotFoundError"
proof (induction ps arbitrary: fs)
  case Nil
  then show ?case by simp
next
  case (Cons p ps)
  show ?case
  proof (cases "is_dir fs p \<and> \<not> is_symlink fs p")
    case True
    with Cons.prems show ?thesis by auto
  next
    case False
    show ?thesis
    proof (cases "unlink fs p")
      case (Inl e)
      with False Cons.prems show ?thesis by auto
    next
      case (Inr fs1)
      with False Cons.prems have "purge fs1 ps = (Some f, fs')" by (auto split: if_splits)
      then show ?thesis by (rule Cons.IH)
    qed
  qed
qed


lemma resolve_never_NotFound: "resolve_inputs env fs = Inl f \<Longrightarrow> f \<noteq> NotFoundError"
  unfolding resolve_inputs_def
  by (auto split: option.splits if_splits sum.splits)

lemma prepare_never_NotFound: "prepare_destination env fs d = (Some f, fs') \<Longrightarrow> f \<noteq> NotFoundError"
  unfolding prepare_destination_def
  by (auto split: prod.splits option.splits if_splits dest: purge_never_NotFound)


lemma main_never_NotFound:
  assumes "truthy (env ''dmg_path'')"
  shows "fst (main H env fs) \<noteq> Inl NotFoundError"
proof (cases "resolve_inputs env fs")
  case (Inl f)
  then show ?thesis using resolve_never_NotFound[OF Inl] by (simp add: main_def)
next
  case (Inr pd)
  obtain pathname dest where pd: "pd = (pathname, dest)" by (cases pd)
  obtain r fs1 where pr: "prepare_destination env fs dest = (r, fs1)"
    by (cases "prepare_destination env fs dest")
  show ?thesis
  proof (cases r)
    case None
    with Inr pd pr process_never_NotFound[of env H fs1 pathname dest, OF assms]
    show ?thesis by (simp add: main_def)
  next
    case (Some f)
    with pr have "f \<noteq> NotFoundError" by (auto dest: prepare_never_NotFound)
    with Inr pd pr Some show ?thesis by (simp add: main_def)
  qed
qed

lemma main_reaches_process:
  assumes "resolve_inputs env fs = Inr (pathname, dest)"
    and "prepare_destination env fs dest = (None, fs1)"
  shows "main H env fs = process H env fs1 pathname dest"
  using assms by (simp add: main_def)

lemma EXTNS_nonempty_key: "fmt \<in> set (map fst EXTNS) \<Longrightarrow> fmt \<noteq> []"
  by (auto simp: EXTNS_def)

lemma process_reaches_locate:
  assumes "rename fs1 pathname (new_pathname pathname) = Inr fs2"
    and "suffix_of (name (new_pathname pathname)) \<noteq> ''.dmg''"
    and "get_archive_format H (path_str (new_pathname pathname)) = Some fmt"
    and "fmt \<in> set (map fst EXTNS)"
    and "extract_archive H fmt (path_str (new_pathname pathname)) (path_str dest) fs2 = (None, fs3)"
  shows "process H env fs1 pathname dest = locate_dmg H env fs3 dest"
  using assms EXTNS_nonempty_key[OF assms(4)] by (simp add: process_def)

section \<open>The claims\<close>

subsection \<open>A source that is a disk image (C6)\<close>

text \<open>
  Claim C6. When the name of the renamed file has the extension \<open>.dmg\<close>, the result
  is the path of the renamed file itself: whenever the inputs are resolved, the
  destination is prepared and the file is renamed, \<^verbatim>\<open>main\<close> returns with
  \<^verbatim>\<open>env["dmg_path"]\<close> set to that path and with the filesystem as the renaming left it.
  The collaborators \<open>H\<close> are arbitrary and the result does not depend on them: neither
  the format detection nor the extraction takes part.
\<close>

theorem dmg_source_is_result:
  assumes "resolve_inputs env fs = Inr (pathname, dest)"
    and "prepare_destination env fs dest = (None, fs1)"
    and "rename fs1 pathname (new_pathname pathname) = Inr fs2"
    and "suffix_of (name (new_pathname pathname)) = ''.dmg''"
  shows "main H env fs =
    (Inr (), env(''dmg_path'' \<mapsto> PStr (path_str (new_pathname pathname))), fs2)"
proof -
  have "path_str (new_pathname pathname) \<noteq> []"
    using assms(4) by (rule suffix_of_dmg_path_str)
  then have "final_check (env(''dmg_path'' \<mapsto> PStr (path_str (new_pathname pathname)))) fs2 =
    (Inr (), env(''dmg_path'' \<mapsto> PStr (path_str (new_pathname pathname))), fs2)"
    by (simp add: final_check_def)
  moreover have "main H env fs = process H env fs1 pathname dest"
    using assms(1,2) by (rule main_reaches_process)
  ultimately show ?thesis using assms(3,4) by (simp add: process_def)
qed

theorem dmg_source_is_result_witness:
  "resolve_inputs (demo_env ''/dl/app-installer.dmg?sig=abc123'' ''Tool'' False) demo_fs =
     Inr (parse_path ''/dl/app-installer.dmg?sig=abc123'', parse_path ''/cache/Tool'') \<and>
   prepare_destination (demo_env ''/dl/app-installer.dmg?sig=abc123'' ''Tool'' False) demo_fs
     (parse_path ''/cache/Tool'') = (None, demo_fs) \<and>
   rename demo_fs (parse_path ''/dl/app-installer.dmg?sig=abc123'')
     (new_pathname (parse_path ''/dl/app-installer.dmg?sig=abc123'')) =
     Inr (put_at (remove_at demo_fs [''dl'', ''app-installer.dmg?sig=abc123''])
            [''dl'', ''app-installer.dmg''] File) \<and>
   suffix_of (name (new_pathname (parse_path ''/dl/app-installer.dmg?sig=abc123''))) = ''.dmg'' \<and>
   path_str (new_pathname (parse_path ''/dl/app-installer.dmg?sig=abc123'')) =
     ''/dl/app-installer.dmg'' \<and>
   main tool_archive (demo_env ''/dl/app-installer.dmg?sig=abc123'' ''Tool'' False) demo_fs =
     (Inr (),
      (demo_env ''/dl/app-installer.dmg?sig=abc123'' ''Tool'' False)
        (''dmg_path'' \<mapsto> PStr (path_str (new_pathname (parse_path ''/dl/app-installer.dmg?sig=abc123'')))),
      put_at (remove_at demo_fs [''dl'', ''app-installer.dmg?sig=abc123''])
        [''dl'', ''app-installer.dmg''] File)"
proof -
  let ?env = "demo_env ''/dl/app-installer.dmg?sig=abc123'' ''Tool'' False"
  let ?p = "parse_path ''/dl/app-installer.dmg?sig=abc123''"
  let ?fs2 = "put_at (remove_at demo_fs [''dl'', ''app-installer.dmg?sig=abc123''])
            [''dl'', ''app-installer.dmg''] File"
  have a: "resolve_inputs ?env demo_fs = Inr (?p, parse_path ''/cache/Tool'')" by code_simp
  have b: "prepare_destination ?env demo_fs (parse_path ''/cache/Tool'') = (None, demo_fs)"
    by code_simp
  have c: "rename demo_fs ?p (new_pathname ?p) = Inr ?fs2" by code_simp
  have d: "suffix_of (name (new_pathname ?p)) = ''.dmg''" by code_simp
  have e: "path_str (new_pathname ?p) = ''/dl/app-installer.dmg''" by code_simp
  note f = dmg_source_is_result[OF a b c d, of tool_archive]
  from a b c d e f show ?thesis by (intro conjI)
qed

subsection \<open>An earlier \<^verbatim>\<open>dmg_path\<close> (C10)\<close>

text \<open>
  Claim C10. When \<^verbatim>\<open>env["dmg_path"]\<close> holds a non-empty value as the processor
  starts, an invocation never ends with the error of line 169 (no disk image located):
  every value the processor itself stores there is a non-empty path, and a value it
  does not replace is the one that was there. In particular, when everything up to
  the extraction succeeds and the loop over \<^verbatim>\<open>glob("*.dmg")\<close> matches no entry, the
  invocation succeeds and leaves the environment, and so the earlier \<^verbatim>\<open>dmg_path\<close>,
  as it was.
\<close>

theorem stale_dmg_path_suppresses_NotFoundError:
  assumes "truthy (env ''dmg_path'')"
  shows "fst (main H env fs) \<noteq> Inl NotFoundError \<and>
    (\<forall>pathname dest fs1 fs2 fmt fs3 recipe_name.
       resolve_inputs env fs = Inr (pathname, dest) \<and>
       prepare_destination env fs dest = (None, fs1) \<and>
       rename fs1 pathname (new_pathname pathname) = Inr fs2 \<and>
       suffix_of (name (new_pathname pathname)) \<noteq> ''.dmg'' \<and>
       get_archive_format H (path_str (new_pathname pathname)) = Some fmt \<and>
       fmt \<in> set (map fst EXTNS) \<and>
       extract_archive H fmt (path_str (new_pathname pathname)) (path_str dest) fs2 = (None, fs3) \<and>
       env ''NAME'' = Some recipe_name \<and>
       find_dmg H (py_str recipe_name) (glob_dmg fs3 dest) = Inr None
       \<longrightarrow> main H env fs = (Inr (), env, fs3))"
proof (intro conjI allI impI)
  show "fst (main H env fs) \<noteq> Inl NotFoundError"
    using assms by (rule main_never_NotFound)
next
  fix pathname dest fs1 fs2 fmt fs3 recipe_name
  assume a: "resolve_inputs env fs = Inr (pathname, dest) \<and>
       prepare_destination env fs dest = (None, fs1) \<and>
       rename fs1 pathname (new_pathname pathname) = Inr fs2 \<and>
       suffix_of (name (new_pathname pathname)) \<noteq> ''.dmg'' \<and>
       get_archive_format H (path_str (new_pathname pathname)) = Some fmt \<and>
       fmt \<in> set (map fst EXTNS) \<and>
       extract_archive H fmt (path_str (new_pathname pathname)) (path_str dest) fs2 = (None, fs3) \<and>
       env ''NAME'' = Some recipe_name \<and>
       find_dmg H (py_str recipe_name) (glob_dmg fs3 dest) = Inr None"
  then have "main H env fs = process H env fs1 pathname dest"
    by (intro main_reaches_process) simp_all
  also have "\<dots> = locate_dmg H env fs3 dest"
    using a by (intro process_reaches_locate[where fmt = fmt and ?fs2.0 = fs2]) simp_all
  also have "\<dots> = final_check env fs3"
    using a by (simp add: locate_dmg_def)
  also have "\<dots> = (Inr (), env, fs3)"
    using assms by (simp add: final_check_def)
  finally show "main H env fs = (Inr (), env, fs3)" .
qed

theorem stale_dmg_path_suppresses_NotFoundError_witness:
  "truthy (((demo_env ''/dl/bundle.zip'' ''Tool'' False)(''dmg_path'' \<mapsto> PStr ''/old/stale.dmg''))
      ''dmg_path'') \<and>
   glob_dmg demo_fs (parse_path ''/cache/Tool'') = [] \<and>
   main empty_archive
     ((demo_env ''/dl/bundle.zip'' ''Tool'' False)(''dmg_path'' \<mapsto> PStr ''/old/stale.dmg''))
     demo_fs =
   (Inr (), (demo_env ''/dl/bundle.zip'' ''Tool'' False)(''dmg_path'' \<mapsto> PStr ''/old/stale.dmg''),
    demo_fs)"
proof -
  let ?env = "(demo_env ''/dl/bundle.zip'' ''Tool'' False)(''dmg_path'' \<mapsto> PStr ''/old/stale.dmg'')"
  let ?p = "parse_path ''/dl/bundle.zip''"
  let ?d = "parse_path ''/cache/Tool''"
  have t: "truthy (?env ''dmg_path'')" by simp
  have g: "glob_dmg demo_fs ?d = []" by code_simp
  have a: "resolve_inputs ?env demo_fs = Inr (?p, ?d)" by code_simp
  have b: "prepare_destination ?env demo_fs ?d = (None, demo_fs)" by code_simp
  have c: "rename demo_fs ?p (new_pathname ?p) = Inr demo_fs" by code_simp
  have d: "suffix_of (name (new_pathname ?p)) \<noteq> ''.dmg''" by code_simp
  have e: "get_archive_format empty_archive (path_str (new_pathname ?p)) = Some ''zip''"
    by code_simp
  have f: "''zip'' \<in> set (map fst EXTNS)" by code_simp
  have h: "extract_archive empty_archive ''zip'' (path_str (new_pathname ?p)) (path_str ?d) demo_fs =
    (None, demo_fs)" by (simp add: empty_archive_def)
  have i: "?env ''NAME'' = Some (PStr ''Tool'')" by (simp add: demo_env_def)
  have j: "find_dmg empty_archive (py_str (PStr ''Tool'')) (glob_dmg demo_fs ?d) = Inr None"
    by (simp add: g)
  have "main empty_archive ?env demo_fs = (Inr (), ?env, demo_fs)"
    using stale_dmg_path_suppresses_NotFoundError[of ?env empty_archive demo_fs, OF t]
      a b c d e f h i j by blast
  with t g show ?thesis by (intro conjI)
qed

subsection \<open>The inputs (C8)\<close>

lemma resolve_failure_main: "resolve_inputs env fs = Inl f \<Longrightarrow> main H env fs = (Inl f, env, fs)"
  by (simp add: main_def)

text \<open>
  Claim C8. The inputs (lines 93-110). When neither \<^verbatim>\<open>archive_path\<close> nor \<^verbatim>\<open>pathname\<close> is
  set, the invocation fails with the error of line 95 (\<open>ConfigurationError\<close>). When the
  option read (\<^verbatim>\<open>archive_path\<close> if set, else \<^verbatim>\<open>pathname\<close>) is a non-empty string and the
  path does not exist, it fails with the error of line 102 (\<open>MissingInputError\<close>). When
  \<^verbatim>\<open>destination_path\<close> is not set, the destination is the path combined from
  \<^verbatim>\<open>RECIPE_CACHE_DIR\<close> and \<^verbatim>\<open>NAME\<close>. Resolving the inputs changes nothing: it is a
  function of the environment and the filesystem that returns neither, and an
  invocation that fails there ends with both as they were.
\<close>

theorem input_resolution:
  "(env ''archive_path'' = None \<and> env ''pathname'' = None
      \<longrightarrow> main H env fs = (Inl ConfigurationError, env, fs)) \<and>
   (get_pathname env = Some (PStr s) \<and> s \<noteq> [] \<and> \<not> exists fs (parse_path s)
      \<longrightarrow> main H env fs = (Inl (MissingInputError (path_str (parse_path s))), env, fs)) \<and>
   (get_pathname env = Some (PStr s) \<and> s \<noteq> [] \<and> exists fs (parse_path s) \<and>
    env ''destination_path'' = None \<and>
    env ''RECIPE_CACHE_DIR'' = Some (PStr cache_dir) \<and> env ''NAME'' = Some (PStr recipe_name)
      \<longrightarrow> resolve_inputs env fs =
          Inr (parse_path s, join (parse_path cache_dir) (parse_path recipe_name))) \<and>
   (resolve_inputs env fs = Inl f \<longrightarrow> main H env fs = (Inl f, env, fs))"
proof (intro conjI impI)
  assume "env ''archive_path'' = None \<and> env ''pathname'' = None"
  then have "resolve_inputs env fs = Inl ConfigurationError"
    by (simp add: resolve_inputs_def get_pathname_def)
  then show "main H env fs = (Inl ConfigurationError, env, fs)"
    by (rule resolve_failure_main)
next
  assume "get_pathname env = Some (PStr s) \<and> s \<noteq> [] \<and> \<not> exists fs (parse_path s)"
  then have "resolve_inputs env fs = Inl (MissingInputError (path_str (parse_path s)))"
    by (simp add: resolve_inputs_def)
  then show "main H env fs = (Inl (MissingInputError (path_str (parse_path s))), env, fs)"
    by (rule resolve_failure_main)
next
  assume "get_pathname env = Some (PStr s) \<and> s \<noteq> [] \<and> exists fs (parse_path s) \<and>
    env ''destination_path'' = None \<and>
    env ''RECIPE_CACHE_DIR'' = Some (PStr cache_dir) \<and> env ''NAME'' = Some (PStr recipe_name)"
  then show "resolve_inputs env fs =
          Inr (parse_path s, join (parse_path cache_dir) (parse_path recipe_name))"
    by (simp add: resolve_inputs_def default_destination_def)
next
  assume "resolve_inputs env fs = Inl f"
  then show "main H env fs = (Inl f, env, fs)" by (rule resolve_failure_main)
qed

theorem input_resolution_witness:
  "main empty_archive Map.empty demo_fs = (Inl ConfigurationError, Map.empty, demo_fs) \<and>
   get_pathname (demo_env ''/dl/missing.zip'' ''Tool'' False) = Some (PStr ''/dl/missing.zip'') \<and>
   \<not> exists demo_fs (parse_path ''/dl/missing.zip'') \<and>
   main empty_archive (demo_env ''/dl/missing.zip'' ''Tool'' False) demo_fs =
     (Inl (MissingInputError (path_str (parse_path ''/dl/missing.zip''))),
      demo_env ''/dl/missing.zip'' ''Tool'' False, demo_fs) \<and>
   path_str (parse_path ''/dl/missing.zip'') = ''/dl/missing.zip'' \<and>
   get_pathname [''archive_path'' \<mapsto> PStr ''/dl/bundle.zip'', ''pathname'' \<mapsto> PStr ''/nowhere'',
      ''RECIPE_CACHE_DIR'' \<mapsto> PStr ''/cache'', ''NAME'' \<mapsto> PStr ''Tool''] =
     Some (PStr ''/dl/bundle.zip'') \<and>
   exists demo_fs (parse_path ''/dl/bundle.zip'') \<and>
   resolve_inputs [''archive_path'' \<mapsto> PStr ''/dl/bundle.zip'', ''pathname'' \<mapsto> PStr ''/nowhere'',
      ''RECIPE_CACHE_DIR'' \<mapsto> PStr ''/cache'', ''NAME'' \<mapsto> PStr ''Tool''] demo_fs =
     Inr (parse_path ''/dl/bundle.zip'', join (parse_path ''/cache'') (parse_path ''Tool'')) \<and>
   join (parse_path ''/cache'') (parse_path ''Tool'') = \<lparr>root = ''/'', parts = [''cache'', ''Tool'']\<rparr> \<and>
   resolve_inputs [''pathname'' \<mapsto> PStr ''/dl/bundle.zip''] demo_fs =
     Inl (Uncaught (KeyError ''RECIPE_CACHE_DIR'')) \<and>
   main empty_archive [''pathname'' \<mapsto> PStr ''/dl/bundle.zip''] demo_fs =
     (Inl (Uncaught (KeyError ''RECIPE_CACHE_DIR'')), [''pathname'' \<mapsto> PStr ''/dl/bundle.zip''], demo_fs)"
proof -
  let ?e2 = "demo_env ''/dl/missing.zip'' ''Tool'' False"
  let ?e3 = "[''archive_path'' \<mapsto> PStr ''/dl/bundle.zip'', ''pathname'' \<mapsto> PStr ''/nowhere'',
      ''RECIPE_CACHE_DIR'' \<mapsto> PStr ''/cache'', ''NAME'' \<mapsto> PStr ''Tool'']"
  let ?e4 = "[''pathname'' \<mapsto> PStr ''/dl/bundle.zip'']"
  note T = input_resolution[where H = empty_archive and fs = demo_fs]
  have a: "main empty_archive Map.empty demo_fs = (Inl ConfigurationError, Map.empty, demo_fs)"
    using T[of Map.empty] by simp
  have b1: "get_pathname ?e2 = Some (PStr ''/dl/missing.zip'')"
    by (simp add: get_pathname_def demo_env_def)
  have b2: "\<not> exists demo_fs (parse_path ''/dl/missing.zip'')" by code_simp
  have b: "main empty_archive ?e2 demo_fs =
     (Inl (MissingInputError (path_str (parse_path ''/dl/missing.zip''))), ?e2, demo_fs)"
    using T[of ?e2 "''/dl/missing.zip''"] b1 b2 by simp
  have b3: "path_str (parse_path ''/dl/missing.zip'') = ''/dl/missing.zip''" by code_simp
  have c1: "get_pathname ?e3 = Some (PStr ''/dl/bundle.zip'')" by (simp add: get_pathname_def)
  have c2: "exists demo_fs (parse_path ''/dl/bundle.zip'')" by code_simp
  have c: "resolve_inputs ?e3 demo_fs =
     Inr (parse_path ''/dl/bundle.zip'', join (parse_path ''/cache'') (parse_path ''Tool''))"
    using T[of ?e3 "''/dl/bundle.zip''" "''/cache''" "''Tool''"] c1 c2 by simp
  have c3: "join (parse_path ''/cache'') (parse_path ''Tool'') = \<lparr>root = ''/'', parts = [''cache'', ''Tool'']\<rparr>"
    by code_simp
  have d1: "resolve_inputs ?e4 demo_fs = Inl (Uncaught (KeyError ''RECIPE_CACHE_DIR''))"
    by code_simp
  have d: "main empty_archive ?e4 demo_fs = (Inl (Uncaught (KeyError ''RECIPE_CACHE_DIR'')), ?e4, demo_fs)"
    using T[of ?e4 _ _ _ "Uncaught (KeyError ''RECIPE_CACHE_DIR'')"] d1 by simp
  from a b1 b2 b b3 c1 c2 c c3 d1 d show ?thesis by (intro conjI)
qed

subsection \<open>Format detection (C5)\<close>

lemma suffix_excl: "suffix a f \<Longrightarrow> \<not> suffix a b \<Longrightarrow> \<not> suffix b a \<Longrightarrow> \<not> suffix b f"
  by (meson suffix_same_cases)

lemma candidates_zip: "suffix ''.zip'' f \<Longrightarrow> candidates f = [(''.zip'', ''zip'')]"
proof -
  assume a: "suffix ''.zip'' f"
  have "\<not> suffix ''.tar.gz'' f" "\<not> suffix ''.tgz'' f" "\<not> suffix ''.tar.bz2'' f"
    "\<not> suffix ''.tbz'' f" "\<not> suffix ''.tar'' f" "\<not> suffix ''.gzip'' f"
    by (rule suffix_excl[OF a]; simp add: suffix_to_prefix)+
  with a show ?thesis by (simp add: candidates_def SUFFIX_GROUPS_def)
qed

lemma candidates_tar_gz: "suffix ''.tar.gz'' f \<Longrightarrow> candidates f = [(''.tar.gz'', ''tar_gzip'')]"
proof -
  assume a: "suffix ''.tar.gz'' f"
  have "\<not> suffix ''.zip'' f" "\<not> suffix ''.tgz'' f" "\<not> suffix ''.tar.bz2'' f"
    "\<not> suffix ''.tbz'' f" "\<not> suffix ''.tar'' f" "\<not> suffix ''.gzip'' f"
    by (rule suffix_excl[OF a]; simp add: suffix_to_prefix)+
  with a show ?thesis by (simp add: candidates_def SUFFIX_GROUPS_def)
qed

lemma candidates_tgz: "suffix ''.tgz'' f \<Longrightarrow> candidates f = [(''.tgz'', ''tar_gzip'')]"
proof -
  assume a: "suffix ''.tgz'' f"
  have "\<not> suffix ''.zip'' f" "\<not> suffix ''.tar.gz'' f" "\<not> suffix ''.tar.bz2'' f"
    "\<not> suffix ''.tbz'' f" "\<not> suffix ''.tar'' f" "\<not> suffix ''.gzip'' f"
    by (rule suffix_excl[OF a]; simp add: suffix_to_prefix)+
  with a show ?thesis by (simp add: candidates_def SUFFIX_GROUPS_def)
qed

lemma candidates_tar_bz2: "suffix ''.tar.bz2'' f \<Longrightarrow> candidates f = [(''.tar.bz2'', ''tar_bzip2'')]"
proof -
  assume a: "suffix ''.tar.bz2'' f"
  have "\<not> suffix ''.zip'' f" "\<not> suffix ''.tar.gz'' f" "\<not> suffix ''.tgz'' f"
    "\<not> suffix ''.tbz'' f" "\<not> suffix ''.tar'' f" "\<not> suffix ''.gzip'' f"
    by (rule suffix_excl[OF a]; simp add: suffix_to_prefix)+
  with a show ?thesis by (simp add: candidates_def SUFFIX_GROUPS_def)
qed

lemma candidates_tbz: "suffix ''.tbz'' f \<Longrightarrow> candidates f = [(''.tbz'', ''tar_bzip2'')]"
proof -
  assume a: "suffix ''.tbz'' f"
  have "\<not> suffix ''.zip'' f" "\<not> suffix ''.tar.gz'' f" "\<not> suffix ''.tgz'' f"
    "\<not> suffix ''.tar.bz2'' f" "\<not> suffix ''.tar'' f" "\<not> suffix ''.gzip'' f"
    by (rule suffix_excl[OF a]; simp add: suffix_to_prefix)+
  with a show ?thesis by (simp add: candidates_def SUFFIX_GROUPS_def)
qed

lemma candidates_tar: "suffix ''.tar'' f \<Longrightarrow> candidates f = [(''.tar'', ''tar'')]"
proof -
  assume a: "suffix ''.tar'' f"
  have "\<not> suffix ''.zip'' f" "\<not> suffix ''.tar.gz'' f" "\<not> suffix ''.tgz'' f"
    "\<not> suffix ''.tar.bz2'' f" "\<not> suffix ''.tbz'' f" "\<not> suffix ''.gzip'' f"
    by (rule suffix_excl[OF a]; simp add: suffix_to_prefix)+
  with a show ?thesis by (simp add: candidates_def SUFFIX_GROUPS_def)
qed

lemma candidates_gzip: "suffix ''.gzip'' f \<Longrightarrow> candidates f = [(''.gzip'', ''gzip'')]"
proof -
  assume a: "suffix ''.gzip'' f"
  have "\<not> suffix ''.zip'' f" "\<not> suffix ''.tar.gz'' f" "\<not> suffix ''.tgz'' f"
    "\<not> suffix ''.tar.bz2'' f" "\<not> suffix ''.tbz'' f" "\<not> suffix ''.tar'' f"
    by (rule suffix_excl[OF a]; simp add: suffix_to_prefix)+
  with a show ?thesis by (simp add: candidates_def SUFFIX_GROUPS_def)
qed

text \<open>
  Claim C5. Format detection as the specification describes it (\<open>detect_format\<close>, the
  table of section 4.4 with the longest matching suffix winning): a filename that ends
  in one of the recognised suffixes gets exactly the tag of that suffix's group, and a
  filename that ends in \<open>.tar.gz\<close> or \<open>.tgz\<close> is classified neither as \<open>gzip\<close> nor as
  \<open>tar\<close>. No two suffixes of the table are a suffix of one another, so at most one of
  them matches a filename.
\<close>

theorem detect_format_by_suffix:
  "(suffix ''.zip'' f \<longrightarrow> detect_format f = Some ''zip'') \<and>
   (suffix ''.tar.gz'' f \<longrightarrow> detect_format f = Some ''tar_gzip'') \<and>
   (suffix ''.tgz'' f \<longrightarrow> detect_format f = Some ''tar_gzip'') \<and>
   (suffix ''.tar.bz2'' f \<longrightarrow> detect_format f = Some ''tar_bzip2'') \<and>
   (suffix ''.tbz'' f \<longrightarrow> detect_format f = Some ''tar_bzip2'') \<and>
   (suffix ''.tar'' f \<longrightarrow> detect_format f = Some ''tar'') \<and>
   (suffix ''.gzip'' f \<longrightarrow> detect_format f = Some ''gzip'') \<and>
   (suffix ''.tar.gz'' f \<or> suffix ''.tgz'' f
      \<longrightarrow> detect_format f \<noteq> Some ''gzip'' \<and> detect_format f \<noteq> Some ''tar'')"
  by (auto simp: detect_format_def candidates_zip candidates_tar_gz candidates_tgz
      candidates_tar_bz2 candidates_tbz candidates_tar candidates_gzip)

theorem detect_format_by_suffix_witness:
  "suffix ''.zip'' ''/dl/bundle.zip'' \<and> detect_format ''/dl/bundle.zip'' = Some ''zip'' \<and>
   suffix ''.tar.gz'' ''/dl/bundle.tar.gz'' \<and> detect_format ''/dl/bundle.tar.gz'' = Some ''tar_gzip'' \<and>
   detect_format ''/dl/bundle.tar.gz'' \<noteq> Some ''gzip'' \<and>
   detect_format ''/dl/bundle.tar.gz'' \<noteq> Some ''tar'' \<and>
   suffix ''.tgz'' ''/dl/bundle.tgz'' \<and> detect_format ''/dl/bundle.tgz'' = Some ''tar_gzip'' \<and>
   suffix ''.tar.bz2'' ''/dl/bundle.tar.bz2'' \<and> detect_format ''/dl/bundle.tar.bz2'' = Some ''tar_bzip2'' \<and>
   suffix ''.tbz'' ''/dl/bundle.tbz'' \<and> detect_format ''/dl/bundle.tbz'' = Some ''tar_bzip2'' \<and>
   suffix ''.tar'' ''/dl/bundle.tar'' \<and> detect_format ''/dl/bundle.tar'' = Some ''tar'' \<and>
   suffix ''.gzip'' ''/dl/bundle.gzip'' \<and> detect_format ''/dl/bundle.gzip'' = Some ''gzip''"
proof -
  have s1: "suffix ''.zip'' ''/dl/bundle.zip''" by (simp add: suffix_to_prefix)
  have s2: "suffix ''.tar.gz'' ''/dl/bundle.tar.gz''" by (simp add: suffix_to_prefix)
  have s3: "suffix ''.tgz'' ''/dl/bundle.tgz''" by (simp add: suffix_to_prefix)
  have s4: "suffix ''.tar.bz2'' ''/dl/bundle.tar.bz2''" by (simp add: suffix_to_prefix)
  have s5: "suffix ''.tbz'' ''/dl/bundle.tbz''" by (simp add: suffix_to_prefix)
  have s6: "suffix ''.tar'' ''/dl/bundle.tar''" by (simp add: suffix_to_prefix)
  have s7: "suffix ''.gzip'' ''/dl/bundle.gzip''" by (simp add: suffix_to_prefix)
  note T = detect_format_by_suffix
  have d1: "detect_format ''/dl/bundle.zip'' = Some ''zip''"
    using T[of "''/dl/bundle.zip''"] s1 by (elim conjE) (erule mp)
  have d2: "detect_format ''/dl/bundle.tar.gz'' = Some ''tar_gzip''"
    using T[of "''/dl/bundle.tar.gz''"] s2 by (elim conjE) (erule mp)
  have d2': "detect_format ''/dl/bundle.tar.gz'' \<noteq> Some ''gzip'' \<and>
    detect_format ''/dl/bundle.tar.gz'' \<noteq> Some ''tar''"
    using T[of "''/dl/bundle.tar.gz''"] disjI1[OF s2] by (elim conjE) (erule mp)
  have d3: "detect_format ''/dl/bundle.tgz'' = Some ''tar_gzip''"
    using T[of "''/dl/bundle.tgz''"] s3 by (elim conjE) (erule mp)
  have d4: "detect_format ''/dl/bundle.tar.bz2'' = Some ''tar_bzip2''"
    using T[of "''/dl/bundle.tar.bz2''"] s4 by (elim conjE) (erule mp)
  have d5: "detect_format ''/dl/bundle.tbz'' = Some ''tar_bzip2''"
    using T[of "''/dl/bundle.tbz''"] s5 by (elim conjE) (erule mp)
  have d6: "detect_format ''/dl/bundle.tar'' = Some ''tar''"
    using T[of "''/dl/bundle.tar''"] s6 by (elim conjE) (erule mp)
  have d7: "detect_format ''/dl/bundle.gzip'' = Some ''gzip''"
    using T[of "''/dl/bundle.gzip''"] s7 by (elim conjE) (erule mp)
  from s1 d1 s2 d2 d2'[THEN conjunct1] d2'[THEN conjunct2] s3 d3 s4 d4 s5 d5 s6 d6 s7 d7
  show ?thesis by (intro conjI)
qed

subsection \<open>An unrecognised format (C4)\<close>

lemma root_of_cases: "root_of s = [] \<or> root_of s = ''/'' \<or> root_of s = ''//''"
  by (simp add: root_of_def)

lemma root_new_pathname:
  "root (new_pathname (parse_path v)) = [] \<or> root (new_pathname (parse_path v)) = ''/'' \<or>
   root (new_pathname (parse_path v)) = ''//''"
  using root_of_cases[of v]
    root_of_cases[of "hd (str_split CHR ''?'' (name (parse_path v)))"]
  by (auto simp: new_pathname_def join_def parent_def parse_path_def)

lemma resolve_inputs_parsed:
  "resolve_inputs env fs = Inr (pathname, dest) \<Longrightarrow> \<exists>v. pathname = parse_path v"
  unfolding resolve_inputs_def
  by (cases "get_pathname env"; cases "the (get_pathname env)")
     (auto split: if_splits sum.splits option.splits)

lemma slash_join_last:
  "ps \<noteq> [] \<Longrightarrow> \<exists>pre. slash_join ps = pre @ last ps \<and> (pre = [] \<or> last pre = CHR ''/'')"
proof (induction ps rule: slash_join.induct)
  case 1
  then show ?case by simp
next
  case (2 x)
  then show ?case by simp
next
  case (3 x y ys)
  then obtain pre where pre: "slash_join (y # ys) = pre @ last (y # ys)"
    "pre = [] \<or> last pre = CHR ''/''" by auto
  have "slash_join (x # y # ys) = (x @ ''/'' @ pre) @ last (x # y # ys)"
    using pre(1) by simp
  moreover have "last (x @ ''/'' @ pre) = CHR ''/''"
    using pre(2) by (cases "pre = []") simp_all
  ultimately show ?case by (intro exI[of _ "x @ ''/'' @ pre"]) simp
qed


lemma suffix_after_slash:
  assumes "suffix s (q @ nm)" and "CHR ''/'' \<notin> set s" and "q = [] \<or> last q = CHR ''/''"
  shows "suffix s nm"
proof -
  from assms(1) obtain z where z: "q @ nm = z @ s" unfolding suffix_def by blast
  then obtain us where us: "q = z @ us \<and> us @ nm = s \<or> q @ us = z \<and> nm = us @ s"
    unfolding append_eq_append_conv2 by blast
  show ?thesis
  proof (cases "q = z @ us \<and> us @ nm = s")
    case False
    with us have "nm = us @ s" by blast
    then show ?thesis unfolding suffix_def by blast
  next
    case True
    show ?thesis
    proof (cases "us = []")
      case True
      with \<open>q = z @ us \<and> us @ nm = s\<close> have "s = nm" by simp
      then show ?thesis by simp
    next
      case False
      with True have "q \<noteq> []" and "last q = last us" by simp_all
      with assms(3) have "last us = CHR ''/''" by simp
      moreover have "last us \<in> set us" using False by (rule last_in_set)
      ultimately have "CHR ''/'' \<in> set us" by simp
      with True have "CHR ''/'' \<in> set s" by auto
      with assms(2) show ?thesis by simp
    qed
  qed
qed

lemma suffix_path_str_name:
  assumes "suffix s (path_str p)" and "CHR ''/'' \<notin> set s" and "s \<noteq> []" and "s \<noteq> ''.''"
    and "root p = [] \<or> root p = ''/'' \<or> root p = ''//''"
  shows "suffix s (name p)"
proof (cases "parts p = []")
  case True
  with assms(5) have "path_str p = ''.'' \<or> path_str p = ''/'' \<or> path_str p = ''//''"
    by (auto simp: path_str_def)
  moreover have "suffix s ''.'' \<Longrightarrow> s = [] \<or> s = ''.''"
    by (cases s) (auto simp: suffix_Cons)
  moreover have "suffix s ''/'' \<Longrightarrow> s = [] \<or> s = ''/''"
    by (cases s) (auto simp: suffix_Cons)
  moreover have "suffix s ''//'' \<Longrightarrow> s = [] \<or> s = ''/'' \<or> s = ''//''"
    by (cases s) (auto simp: suffix_Cons)
  ultimately show ?thesis using assms(1-4) by auto
next
  case False
  then obtain pre where pre: "slash_join (parts p) = pre @ last (parts p)"
    "pre = [] \<or> last pre = CHR ''/''" using slash_join_last by blast
  have "path_str p = (root p @ pre) @ name p"
    using False pre(1) by (simp add: path_str_def name_def)
  moreover have "root p @ pre = [] \<or> last (root p @ pre) = CHR ''/''"
    using pre(2) assms(5) by (cases "pre = []") auto
  ultimately show ?thesis using assms(1,2) suffix_after_slash[of s "root p @ pre" "name p"] by simp
qed


lemma candidates_none:
  assumes "\<not> suffix ''.zip'' f" "\<not> suffix ''.tar.gz'' f" "\<not> suffix ''.tgz'' f"
    "\<not> suffix ''.tar.bz2'' f" "\<not> suffix ''.tbz'' f" "\<not> suffix ''.tar'' f"
    "\<not> suffix ''.gzip'' f"
  shows "detect_format f = None"
  using assms by (simp add: detect_format_def candidates_def SUFFIX_GROUPS_def)

text \<open>
  Claim C4. When the name of the renamed file does not end in \<open>.dmg\<close> and ends in none
  of the recognised archive suffixes, the invocation fails with the error of line 138
  (\<open>UnrecognizedFormatError\<close>), which names the file, and the filesystem is as the
  renaming left it: the extraction of \<open>H\<close>, which is arbitrary, is not called. The
  format is taken from the table of the specification (\<open>detect_format\<close>), applied, as
  in the source, to the whole path string.
\<close>

theorem unrecognized_format:
  assumes "resolve_inputs env fs = Inr (pathname, dest)"
    and "prepare_destination env fs dest = (None, fs1)"
    and "rename fs1 pathname (new_pathname pathname) = Inr fs2"
    and "\<not> suffix ''.dmg'' (name (new_pathname pathname))"
    and "list_all (\<lambda>s. \<not> suffix s (name (new_pathname pathname)))
           (concat (map snd SUFFIX_GROUPS))"
    and "get_archive_format H = detect_format"
  shows "main H env fs =
    (Inl (UnrecognizedFormatError (name (new_pathname pathname))), env, fs2)"
proof -
  let ?np = "new_pathname pathname"
  from assms(1) obtain v where "pathname = parse_path v"
    using resolve_inputs_parsed by blast
  then have r: "root ?np = [] \<or> root ?np = ''/'' \<or> root ?np = ''//''"
    using root_new_pathname by simp
  have n: "\<not> suffix s (path_str ?np)"
    if "\<not> suffix s (name ?np)" "CHR ''/'' \<notin> set s" "s \<noteq> []" "s \<noteq> ''.''" for s
    using that suffix_path_str_name[OF _ _ _ _ r] by blast
  from assms(5) have "detect_format (path_str ?np) = None"
    by (intro candidates_none n) (simp_all add: SUFFIX_GROUPS_def)
  with assms(6) have d: "get_archive_format H (path_str ?np) = None" by simp
  have "suffix_of (name ?np) \<noteq> ''.dmg''"
    using assms(4) suffix_of_is_suffix[of "name ?np" "''.dmg''"] by auto
  with d assms(3) have "process H env fs1 pathname dest =
    (Inl (UnrecognizedFormatError (name ?np)), env, fs2)"
    by (simp add: process_def)
  then show ?thesis using main_reaches_process[OF assms(1,2)] by simp
qed

theorem unrecognized_format_witness:
  "resolve_inputs (demo_env ''/dl/notes.txt'' ''Tool'' False) demo_fs =
     Inr (parse_path ''/dl/notes.txt'', parse_path ''/cache/Tool'') \<and>
   prepare_destination (demo_env ''/dl/notes.txt'' ''Tool'' False) demo_fs
     (parse_path ''/cache/Tool'') = (None, demo_fs) \<and>
   rename demo_fs (parse_path ''/dl/notes.txt'') (new_pathname (parse_path ''/dl/notes.txt'')) =
     Inr demo_fs \<and>
   name (new_pathname (parse_path ''/dl/notes.txt'')) = ''notes.txt'' \<and>
   \<not> suffix ''.dmg'' (name (new_pathname (parse_path ''/dl/notes.txt''))) \<and>
   list_all (\<lambda>s. \<not> suffix s (name (new_pathname (parse_path ''/dl/notes.txt''))))
     (concat (map snd SUFFIX_GROUPS)) \<and>
   get_archive_format tool_archive = detect_format \<and>
   main tool_archive (demo_env ''/dl/notes.txt'' ''Tool'' False) demo_fs =
     (Inl (UnrecognizedFormatError (name (new_pathname (parse_path ''/dl/notes.txt'')))),
      demo_env ''/dl/notes.txt'' ''Tool'' False, demo_fs)"
proof -
  let ?env = "demo_env ''/dl/notes.txt'' ''Tool'' False"
  let ?p = "parse_path ''/dl/notes.txt''"
  have a: "resolve_inputs ?env demo_fs = Inr (?p, parse_path ''/cache/Tool'')" by code_simp
  have b: "prepare_destination ?env demo_fs (parse_path ''/cache/Tool'') = (None, demo_fs)"
    by code_simp
  have c: "rename demo_fs ?p (new_pathname ?p) = Inr demo_fs" by code_simp
  have n: "name (new_pathname ?p) = ''notes.txt''" by code_simp
  have d: "\<not> suffix ''.dmg'' (name (new_pathname ?p))"
    unfolding n by (simp add: suffix_to_prefix)
  have e: "list_all (\<lambda>s. \<not> suffix s (name (new_pathname ?p))) (concat (map snd SUFFIX_GROUPS))"
    unfolding n by (simp add: SUFFIX_GROUPS_def suffix_to_prefix)
  have f: "get_archive_format tool_archive = detect_format" by (simp add: tool_archive_def)
  note g = unrecognized_format[OF a b c d e f]
  from a b c n d e f g show ?thesis by (intro conjI)
qed

subsection \<open>The purge and hidden entries (C9)\<close>

lemma map_of_remove_entry:
  "map_of (remove_entry n es) c = (if c = n then None else map_of es c)"
  by (induction es) (auto simp: remove_entry_def)

lemma map_of_map_entry:
  "map_of (map (\<lambda>(k, m). if k = a then (k, h m) else (k, m)) es) c =
     (if c = a then map_option h (map_of es c) else map_of es c)"
  by (induction es) auto

lemma lookup_append:
  "lookup t (p @ r) = (case lookup t p of None \<Rightarrow> None | Some m \<Rightarrow> lookup m r)"
proof (induction p arbitrary: t)
  case Nil
  show ?case by simp
next
  case (Cons a p)
  show ?case
  proof (cases t)
    case (Dir es)
    then show ?thesis using Cons.IH by (simp split: option.splits)
  qed simp_all
qed

lemma lookup_modify_same:
  "lookup t loc = Some (Dir es) \<Longrightarrow> lookup (modify t loc f) loc = Some (Dir (f es))"
proof (induction loc arbitrary: t)
  case Nil
  then show ?case by simp
next
  case (Cons a loc)
  then obtain es0 where t: "t = Dir es0" by (cases t) simp_all
  with Cons.prems obtain m where m: "map_of es0 a = Some m" "lookup m loc = Some (Dir es)"
    by (auto split: option.splits)
  from Cons.IH[OF m(2)] have "lookup (modify m loc f) loc = Some (Dir (f es))" .
  with t m(1) show ?case by (simp add: map_of_map_entry)
qed

lemma dir_at_Nil: "dir_at t [] = (\<exists>es. t = Dir es)"
  by (cases t) (simp_all add: dir_at_def)

lemma dir_at_Cons:
  "dir_at t (c # cs) = (\<exists>es m. t = Dir es \<and> map_of es c = Some m \<and> dir_at m cs)"
  by (cases t) (auto simp: dir_at_def split: option.splits)

lemma dir_at_remove:
  "dir_at t q \<Longrightarrow> \<not> prefix (loc @ [n]) q \<Longrightarrow> dir_at (modify t loc (remove_entry n)) q"
proof (induction loc arbitrary: t q)
  case Nil
  show ?case
  proof (cases q)
    case Nil
    with Nil.prems show ?thesis by (auto simp: dir_at_Nil)
  next
    case (Cons c cs)
    with Nil.prems have "c \<noteq> n" by simp
    with Nil.prems Cons show ?thesis
      by (auto simp: dir_at_Cons map_of_remove_entry)
  qed
next
  case (Cons a loc)
  show ?case
  proof (cases q)
    case Nil
    with Cons.prems show ?thesis by (auto simp: dir_at_Nil)
  next
    case q: (Cons c cs)
    with Cons.prems obtain es m where t: "t = Dir es" "map_of es c = Some m" "dir_at m cs"
      by (auto simp: dir_at_Cons)
    show ?thesis
    proof (cases "c = a")
      case True
      with Cons.prems q have "\<not> prefix (loc @ [n]) cs" by simp
      from Cons.IH[OF t(3) this] have "dir_at (modify m loc (remove_entry n)) cs" .
      with t True q show ?thesis by (simp add: dir_at_Cons map_of_map_entry)
    next
      case False
      with t q show ?thesis by (simp add: dir_at_Cons map_of_map_entry)
    qed
  qed
qed

lemma dir_at_not_below_file:
  assumes "dir_at t q" and "lookup t p = Some x" and "\<not> (\<exists>es. x = Dir es)"
  shows "\<not> prefix p q"
proof
  assume "prefix p q"
  then obtain r where "q = p @ r" by (auto simp: prefix_def)
  with assms(1,2) have "dir_at x r" by (simp add: dir_at_def lookup_append)
  with assms(3) show False by (cases r; cases x) (simp_all add: dir_at_def)
qed

lemma walk_mono:
  "walk t acc cs = Inr r \<Longrightarrow> (\<And>q. dir_at t q \<Longrightarrow> dir_at t' q) \<Longrightarrow> walk t' acc cs = Inr r"
proof (induction cs arbitrary: acc)
  case Nil
  then show ?case by simp
next
  case (Cons c cs)
  from Cons.prems(1) obtain es where es: "lookup t acc = Some (Dir es)"
    by (auto split: option.splits node.splits)
  then have "dir_at t acc" by (simp add: dir_at_def)
  then have "dir_at t' acc" by (rule Cons.prems(2))
  then obtain es' where es': "lookup t' acc = Some (Dir es')"
    by (auto simp: dir_at_def split: option.splits node.splits)
  from Cons.prems(1) es have "walk t (if c = ''..'' then butlast acc else acc @ [c]) cs = Inr r"
    by simp
  from Cons.IH[OF this Cons.prems(2)] es' show ?case by simp
qed

lemma walk_snoc:
  "walk t acc (cs @ [c]) =
     (case walk t acc cs of
        Inl e \<Rightarrow> Inl e
      | Inr r \<Rightarrow>
          (case lookup t r of
             None \<Rightarrow> Inl ENOENT
           | Some (Dir es) \<Rightarrow> Inr (if c = ''..'' then butlast r else r @ [c])
           | Some _ \<Rightarrow> Inl ENOTDIR))"
proof (induction cs arbitrary: acc)
  case Nil
  show ?case by (simp split: option.splits node.splits)
next
  case (Cons a cs)
  show ?case by (simp add: Cons.IH split: option.splits node.splits)
qed


lemma locate_child:
  assumes "locate fs d = Inr loc" and "lookup (tree fs) loc = Some (Dir es)" and "n \<noteq> ''..''"
  shows "locate fs (child d n) = Inr (loc @ [n])"
  using assms by (simp add: locate_def child_def walk_snoc)

lemma unlink_child:
  assumes "locate fs d = Inr loc" and "lookup (tree fs) loc = Some (Dir es)" and "n \<noteq> ''..''"
    and "unlink fs (child d n) = Inr fs'"
  shows "locate fs' d = Inr loc \<and> lookup (tree fs') loc = Some (Dir (remove_entry n es))"
proof -
  let ?t = "tree fs"
  have l: "locate fs (child d n) = Inr (loc @ [n])" using assms(1-3) by (rule locate_child)
  from assms(4) l obtain x where x: "lookup ?t (loc @ [n]) = Some x" "\<not> (\<exists>es. x = Dir es)"
    and fs': "fs' = remove_at fs (loc @ [n])"
    by (auto simp: unlink_def split: option.splits node.splits if_splits)
  have t': "tree fs' = modify ?t loc (remove_entry n)" and c: "cwd fs' = cwd fs"
    using fs' by (simp_all add: remove_at_def)
  have "dir_at (tree fs') q" if "dir_at ?t q" for q
    unfolding t' using that dir_at_not_below_file[OF that x] by (rule dir_at_remove)
  with assms(1) have "locate fs' d = Inr loc"
    unfolding locate_def c by (rule walk_mono)
  moreover have "lookup (tree fs') loc = Some (Dir (remove_entry n es))"
    unfolding t' using assms(2) by (rule lookup_modify_same)
  ultimately show ?thesis by simp
qed

lemma fst_remove_entry: "map fst (remove_entry n es) = filter (\<lambda>k. k \<noteq> n) (map fst es)"
  by (induction es) (auto simp: remove_entry_def)

lemma scandir_located:
  "locate fs d = Inr loc \<Longrightarrow> lookup (tree fs) loc = Some (Dir es) \<Longrightarrow>
   scandir fs d = filter (\<lambda>n. n \<noteq> ''.'' \<and> n \<noteq> ''..'') (map fst es)"
  by (simp add: scandir_def lstat_def)

lemma purge_empties:
  assumes "locate fs d = Inr loc" and "lookup (tree fs) loc = Some (Dir es)"
    and "set (scandir fs d) \<subseteq> set ns" and "''..'' \<notin> set ns"
    and "purge fs (map (child d) ns) = (None, fs')"
  shows "scandir fs' d = []"
  using assms
proof (induction ns arbitrary: fs es)
  case Nil
  then show ?case by simp
next
  case (Cons n ns)
  from Cons.prems(5) obtain fs1 where u: "unlink fs (child d n) = Inr fs1"
    and p: "purge fs1 (map (child d) ns) = (None, fs')"
    by (auto split: if_splits sum.splits)
  from Cons.prems(4) have n: "n \<noteq> ''..''" and ns: "''..'' \<notin> set ns" by auto
  from unlink_child[OF Cons.prems(1,2) n u]
  have l: "locate fs1 d = Inr loc" "lookup (tree fs1) loc = Some (Dir (remove_entry n es))"
    by simp_all
  have "scandir fs1 d = filter (\<lambda>k. k \<noteq> n) (scandir fs d)"
    unfolding scandir_located[OF l] scandir_located[OF Cons.prems(1,2)] fst_remove_entry
    by (simp add: conj_commute)
  with Cons.prems(3) have "set (scandir fs1 d) \<subseteq> set ns" by auto
  from Cons.IH[OF l this ns p] show ?case .
qed

lemma scandir_no_dotdot: "''..'' \<notin> set (scandir fs d)"
  by (auto simp: scandir_def split: option.splits node.splits)

lemma purge_glob_all_empties:
  assumes "purge fs (glob_all fs d) = (None, fs')"
  shows "scandir fs' d = []"
proof (cases "\<exists>loc es. locate fs d = Inr loc \<and> lookup (tree fs) loc = Some (Dir es)")
  case True
  then obtain loc es where l: "locate fs d = Inr loc" "lookup (tree fs) loc = Some (Dir es)"
    by blast
  from assms have "purge fs (map (child d) (scandir fs d)) = (None, fs')"
    by (simp add: glob_all_def)
  from purge_empties[OF l _ scandir_no_dotdot this] show ?thesis by simp
next
  case False
  then have "scandir fs d = []"
    by (auto simp: scandir_def lstat_def split: sum.splits option.splits node.splits)
  with assms show ?thesis by (simp add: glob_all_def)
qed

text \<open>
  Claim C9 says that the purge leaves entries whose names begin with a dot alone. It
  does not: \<^verbatim>\<open>Path.glob("*")\<close> yields every entry of the directory, and with
  \<^verbatim>\<open>purge_destination\<close> set the hidden file of \<open>/cache/Tool\<close> is gone after the
  invocation.
\<close>

theorem purge_keeps_hidden_counterexample:
  "truthy (demo_env ''/dl/bundle.zip'' ''Tool'' True ''purge_destination'') \<and>
   scandir demo_fs (parse_path ''/cache/Tool'') = [''.hidden'', ''old.txt''] \<and>
   lstat demo_fs (child (parse_path ''/cache/Tool'') ''.hidden'') = Some File \<and>
   lstat (snd (snd (main empty_archive (demo_env ''/dl/bundle.zip'' ''Tool'' True) demo_fs)))
     (child (parse_path ''/cache/Tool'') ''.hidden'') = None \<and>
   scandir (snd (snd (main empty_archive (demo_env ''/dl/bundle.zip'' ''Tool'' True) demo_fs)))
     (parse_path ''/cache/Tool'') = []"
proof -
  have a: "truthy (demo_env ''/dl/bundle.zip'' ''Tool'' True ''purge_destination'')"
    by (simp add: demo_env_def)
  have b: "scandir demo_fs (parse_path ''/cache/Tool'') = [''.hidden'', ''old.txt'']"
    by code_simp
  have c: "lstat demo_fs (child (parse_path ''/cache/Tool'') ''.hidden'') = Some File"
    by code_simp
  have d: "lstat (snd (snd (main empty_archive (demo_env ''/dl/bundle.zip'' ''Tool'' True) demo_fs)))
     (child (parse_path ''/cache/Tool'') ''.hidden'') = None"
    by code_simp
  have e: "scandir (snd (snd (main empty_archive (demo_env ''/dl/bundle.zip'' ''Tool'' True) demo_fs)))
     (parse_path ''/cache/Tool'') = []"
    by code_simp
  from a b c d e show ?thesis by (intro conjI)
qed

text \<open>
  Claim C9, as the code has it. Every entry of the destination other than \<open>.\<close> and
  \<open>..\<close>, so also one whose name begins with a dot, is among the paths the loop of
  lines 114-119 visits; and when the loop completes without an error, no entry is left
  directly inside the destination directory.
\<close>

theorem purge_removes_hidden_entries:
  assumes "lstat fs dest = Some (Dir es)" and "(n, x) \<in> set es"
    and "n \<noteq> ''.''" and "n \<noteq> ''..''"
    and "purge fs (glob_all fs dest) = (None, fs')"
  shows "child dest n \<in> set (glob_all fs dest) \<and> scandir fs' dest = []"
proof
  from assms(2) have "n \<in> set (map fst es)" by force
  with assms(1,3,4) show "child dest n \<in> set (glob_all fs dest)"
    by (simp add: glob_all_def scandir_def)
next
  from assms(5) show "scandir fs' dest = []" by (rule purge_glob_all_empties)
qed


theorem purge_removes_hidden_entries_witness:
  "lstat demo_fs (parse_path ''/cache/Tool'') = Some (Dir [(''.hidden'', File), (''old.txt'', File)]) \<and>
   (''.hidden'', File) \<in> set [(''.hidden'', File), (''old.txt'', File)] \<and>
   ''.hidden'' \<noteq> ''.'' \<and> ''.hidden'' \<noteq> ''..'' \<and>
   purge demo_fs (glob_all demo_fs (parse_path ''/cache/Tool'')) =
     (None, remove_at (remove_at demo_fs [''cache'', ''Tool'', ''.hidden''])
              [''cache'', ''Tool'', ''old.txt'']) \<and>
   child (parse_path ''/cache/Tool'') ''.hidden'' \<in> set (glob_all demo_fs (parse_path ''/cache/Tool'')) \<and>
   scandir (remove_at (remove_at demo_fs [''cache'', ''Tool'', ''.hidden''])
              [''cache'', ''Tool'', ''old.txt'']) (parse_path ''/cache/Tool'') = []"
proof -
  let ?d = "parse_path ''/cache/Tool''"
  let ?fs' = "remove_at (remove_at demo_fs [''cache'', ''Tool'', ''.hidden''])
              [''cache'', ''Tool'', ''old.txt'']"
  have a: "lstat demo_fs ?d = Some (Dir [(''.hidden'', File), (''old.txt'', File)])" by code_simp
  have b: "(''.hidden'', File) \<in> set [(''.hidden'', File), (''old.txt'', File)]" by simp
  have c: "''.hidden'' \<noteq> ''.''" "''.hidden'' \<noteq> ''..''" by simp_all
  have d: "purge demo_fs (glob_all demo_fs ?d) = (None, ?fs')" by code_simp
  note e = purge_removes_hidden_entries[OF a b c d]
  from a b c d e[THEN conjunct1] e[THEN conjunct2] show ?thesis by (intro conjI)
qed

subsection \<open>Finding the disk image (C3)\<close>

lemma name_child: "name (child d n) = n"
  by (simp add: name_def child_def)

lemma find_filter: "find P (filter Q xs) = find (\<lambda>x. Q x \<and> P x) xs"
  by (induction xs) auto

lemma find_dmg_literal:
  assumes "\<not> list_ex regex_special rn"
  shows "find_dmg H rn (map (child d) ns) =
    Inr (map_option (child d) (find (literal_match rn) ns))"
  using assms by (induction ns) (simp_all add: re_match_def name_child)

lemma locate_dmg_literal:
  assumes "env ''NAME'' = Some (PStr rn)" and "\<not> list_ex regex_special rn"
  shows "locate_dmg H env fs d =
    (case find (\<lambda>n. suffix ''.dmg'' n \<and> literal_match rn n) (scandir fs d) of
       Some n \<Rightarrow> (Inr (), env(''dmg_path'' \<mapsto> PStr (path_str (child d n))), fs)
     | None \<Rightarrow>
         if truthy (env ''dmg_path'') then (Inr (), env, fs) else (Inl NotFoundError, env, fs))"
proof (cases "find (\<lambda>n. suffix ''.dmg'' n \<and> literal_match rn n) (scandir fs d)")
  case None
  with assms show ?thesis
    by (simp add: locate_dmg_def glob_dmg_def find_dmg_literal find_filter final_check_def)
next
  case (Some n)
  then have "suffix ''.dmg'' n" by (auto simp: find_Some_iff)
  then have "n \<noteq> []" by (auto simp: suffix_def)
  then have "path_str (child d n) \<noteq> []"
    by (intro path_str_nonempty) (simp_all add: child_def)
  with Some assms show ?thesis
    by (simp add: locate_dmg_def glob_dmg_def find_dmg_literal find_filter final_check_def)
qed


lemma dotstar_then_suffix:
  "suffix lit s \<Longrightarrow> CHR 0x0A \<notin> set s \<Longrightarrow> dotstar_then lit s"
proof (induction s)
  case Nil
  then show ?case by simp
next
  case (Cons c cs)
  from Cons.prems(1) have "lit = c # cs \<or> suffix lit cs" by (simp add: suffix_Cons)
  with Cons show ?case by auto
qed

lemma suffix_after_literal:
  assumes "suffix (CHR ''.'' # e) (q @ r)" and "CHR ''.'' \<notin> set q"
  shows "suffix (CHR ''.'' # e) r"
proof -
  from assms(1) obtain z where z: "q @ r = z @ CHR ''.'' # e" unfolding suffix_def by blast
  then obtain us where us: "q = z @ us \<and> us @ r = CHR ''.'' # e \<or> q @ us = z \<and> r = us @ CHR ''.'' # e"
    unfolding append_eq_append_conv2 by blast
  show ?thesis
  proof (cases "q = z @ us \<and> us @ r = CHR ''.'' # e")
    case False
    with us have "r = us @ CHR ''.'' # e" by blast
    then show ?thesis unfolding suffix_def by blast
  next
    case True
    show ?thesis
    proof (cases us)
      case Nil
      with True show ?thesis by simp
    next
      case (Cons u us')
      with True have "u = CHR ''.''" and "u \<in> set q" by simp_all
      with assms(2) show ?thesis by simp
    qed
  qed
qed

lemma literal_match_plain:
  assumes "\<not> list_ex regex_special rn" and "CHR 0x0A \<notin> set n" and "suffix ''.dmg'' n"
  shows "literal_match rn n = prefix rn n"
proof (cases "prefix rn n")
  case False
  then show ?thesis by (simp add: literal_match_def)
next
  case True
  then obtain r where r: "n = rn @ r" by (auto simp: prefix_def)
  have "regex_special CHR ''.''" by (simp add: regex_special_def)
  with assms(1) have "CHR ''.'' \<notin> set rn" by (auto simp: list_ex_iff)
  with assms(3) r have "suffix ''.dmg'' r" using suffix_after_literal by simp
  moreover from assms(2) r have "CHR 0x0A \<notin> set r" by simp
  ultimately have "dotstar_then ''.dmg'' r" by (rule dotstar_then_suffix)
  with True r show ?thesis by (simp add: literal_match_def)
qed

text \<open>
  Claim C3 says that the search of the destination also runs when the source is
  already a disk image, and that the invocation fails when no entry matches. For a
  source with the extension \<open>.dmg\<close> the source takes the branch of line 133 and the
  loop of lines 160-165 is not reached: with no \<open>.dmg\<close> entry in the destination and
  no earlier \<^verbatim>\<open>dmg_path\<close>, the invocation succeeds and the result is the renamed file.
\<close>

theorem dmg_source_not_searched_counterexample:
  "suffix_of (name (new_pathname (parse_path ''/dl/app-installer.dmg?sig=abc123''))) = ''.dmg'' \<and>
   demo_env ''/dl/app-installer.dmg?sig=abc123'' ''Tool'' False ''dmg_path'' = None \<and>
   glob_dmg (snd (snd (main empty_archive
       (demo_env ''/dl/app-installer.dmg?sig=abc123'' ''Tool'' False) demo_fs)))
     (parse_path ''/cache/Tool'') = [] \<and>
   fst (main empty_archive (demo_env ''/dl/app-installer.dmg?sig=abc123'' ''Tool'' False) demo_fs) =
     Inr () \<and>
   fst (snd (main empty_archive (demo_env ''/dl/app-installer.dmg?sig=abc123'' ''Tool'' False)
     demo_fs)) ''dmg_path'' = Some (PStr ''/dl/app-installer.dmg'')"
proof -
  let ?env = "demo_env ''/dl/app-installer.dmg?sig=abc123'' ''Tool'' False"
  have a: "suffix_of (name (new_pathname (parse_path ''/dl/app-installer.dmg?sig=abc123''))) = ''.dmg''"
    by code_simp
  have b: "?env ''dmg_path'' = None" by (simp add: demo_env_def)
  have c: "glob_dmg (snd (snd (main empty_archive ?env demo_fs))) (parse_path ''/cache/Tool'') = []"
    by code_simp
  have d: "fst (main empty_archive ?env demo_fs) = Inr ()" by code_simp
  have e: "fst (snd (main empty_archive ?env demo_fs)) ''dmg_path'' =
    Some (PStr ''/dl/app-installer.dmg'')" by code_simp
  from a b c d e show ?thesis by (intro conjI)
qed

lemma find_dmg_general:
  "find_dmg H rn (map (child d) ns) =
     (case find (\<lambda>n. re_match H rn n \<noteq> Inr False) ns of
        None \<Rightarrow> Inr None
      | Some n \<Rightarrow>
          (case re_match H rn n of Inl e \<Rightarrow> Inl e | Inr b \<Rightarrow> Inr (Some (child d n))))"
proof (induction ns)
  case Nil
  show ?case by simp
next
  case (Cons n ns)
  show ?case
  proof (cases "re_match H rn n")
    case (Inl e)
    then show ?thesis by (simp add: name_child)
  next
    case (Inr b)
    then show ?thesis using Cons.IH by (cases b) (simp_all add: name_child)
  qed
qed

lemma locate_dmg_general:
  assumes "env ''NAME'' = Some recipe_name"
  shows "locate_dmg H env fs d =
    (case find (\<lambda>n. suffix ''.dmg'' n \<and> re_match H (py_str recipe_name) n \<noteq> Inr False)
            (scandir fs d) of
       None \<Rightarrow>
         if truthy (env ''dmg_path'') then (Inr (), env, fs) else (Inl NotFoundError, env, fs)
     | Some n \<Rightarrow>
         (case re_match H (py_str recipe_name) n of
            Inl e \<Rightarrow> (Inl (WrappedError e), env, fs)
          | Inr b \<Rightarrow> (Inr (), env(''dmg_path'' \<mapsto> PStr (path_str (child d n))), fs)))"
proof (cases "find (\<lambda>n. suffix ''.dmg'' n \<and> re_match H (py_str recipe_name) n \<noteq> Inr False)
            (scandir fs d)")
  case None
  with assms show ?thesis
    by (simp add: locate_dmg_def glob_dmg_def find_dmg_general find_filter final_check_def)
next
  case (Some n)
  then have "suffix ''.dmg'' n" by (auto simp: find_Some_iff)
  then have "n \<noteq> []" by (auto simp: suffix_def)
  then have p: "path_str (child d n) \<noteq> []"
    by (intro path_str_nonempty) (simp_all add: child_def)
  show ?thesis
  proof (cases "re_match H (py_str recipe_name) n")
    case (Inl e)
    with Some assms show ?thesis
      by (simp add: locate_dmg_def glob_dmg_def find_dmg_general find_filter)
  next
    case (Inr b)
    with Some assms p show ?thesis
      by (simp add: locate_dmg_def glob_dmg_def find_dmg_general find_filter final_check_def)
  qed
qed

lemma re_match_literal:
  "\<not> list_ex regex_special rn \<Longrightarrow> re_match H rn n = Inr (literal_match rn n)"
  by (simp add: re_match_def)

text \<open>
  Claim C3, as the code has it. After an archive is unpacked (so not for a source that
  is a disk image), the result is decided by the entries directly inside the
  destination directory whose names end in \<open>.dmg\<close>, taken in listing order, and by
  \<^verbatim>\<open>re.match\<close> of the pattern built from the recipe name (\<open>re_match\<close>), for every
  recipe name and every regular-expression engine. The entries on which the match
  returns no match are passed over. At the first other entry the loop ends: when the
  match raises there (a recipe name that is no regular expression), the invocation
  fails with that exception wrapped at line 179; otherwise the entry matches and its
  path becomes \<^verbatim>\<open>dmg_path\<close>. When every entry is passed over, the invocation fails with
  the error of line 169 (\<open>NotFoundError\<close>), unless the environment already held a
  non-empty \<^verbatim>\<open>dmg_path\<close>. For a recipe name without regular-expression operators the
  match never raises and is \<open>literal_match\<close>: the recipe name, then characters other
  than a newline, then \<open>.dmg\<close>; by \<open>literal_match_plain\<close>, a name without a newline that
  ends in \<open>.dmg\<close> then matches exactly when it starts with the recipe name.
\<close>

theorem locate_dmg_after_extraction:
  assumes "resolve_inputs env fs = Inr (pathname, dest)"
    and "prepare_destination env fs dest = (None, fs1)"
    and "rename fs1 pathname (new_pathname pathname) = Inr fs2"
    and "suffix_of (name (new_pathname pathname)) \<noteq> ''.dmg''"
    and "get_archive_format H (path_str (new_pathname pathname)) = Some fmt"
    and "fmt \<in> set (map fst EXTNS)"
    and "extract_archive H fmt (path_str (new_pathname pathname)) (path_str dest) fs2 = (None, fs3)"
    and "env ''NAME'' = Some recipe_name"
  shows "main H env fs =
    (case find (\<lambda>n. suffix ''.dmg'' n \<and> re_match H (py_str recipe_name) n \<noteq> Inr False)
            (scandir fs3 dest) of
       None \<Rightarrow>
         if truthy (env ''dmg_path'') then (Inr (), env, fs3)
         else (Inl NotFoundError, env, fs3)
     | Some n \<Rightarrow>
         (case re_match H (py_str recipe_name) n of
            Inl e \<Rightarrow> (Inl (WrappedError e), env, fs3)
          | Inr b \<Rightarrow> (Inr (), env(''dmg_path'' \<mapsto> PStr (path_str (child dest n))), fs3))) \<and>
    (\<not> list_ex regex_special (py_str recipe_name) \<longrightarrow>
       (\<forall>n. re_match H (py_str recipe_name) n = Inr (literal_match (py_str recipe_name) n)))"
proof
  have "main H env fs = process H env fs1 pathname dest"
    using assms(1,2) by (rule main_reaches_process)
  also have "\<dots> = locate_dmg H env fs3 dest"
    using assms(3-7) by (rule process_reaches_locate)
  finally show "main H env fs =
    (case find (\<lambda>n. suffix ''.dmg'' n \<and> re_match H (py_str recipe_name) n \<noteq> Inr False)
            (scandir fs3 dest) of
       None \<Rightarrow>
         if truthy (env ''dmg_path'') then (Inr (), env, fs3)
         else (Inl NotFoundError, env, fs3)
     | Some n \<Rightarrow>
         (case re_match H (py_str recipe_name) n of
            Inl e \<Rightarrow> (Inl (WrappedError e), env, fs3)
          | Inr b \<Rightarrow> (Inr (), env(''dmg_path'' \<mapsto> PStr (path_str (child dest n))), fs3)))"
    using locate_dmg_general[where env = env and recipe_name = recipe_name, OF assms(8)]
    by simp
next
  show "\<not> list_ex regex_special (py_str recipe_name) \<longrightarrow>
       (\<forall>n. re_match H (py_str recipe_name) n = Inr (literal_match (py_str recipe_name) n))"
    by (simp add: re_match_literal)
qed

theorem locate_dmg_after_extraction_witness:
  "resolve_inputs (demo_env ''/dl/bundle.zip'' ''Tool'' True) demo_fs =
     Inr (parse_path ''/dl/bundle.zip'', parse_path ''/cache/Tool'') \<and>
   prepare_destination (demo_env ''/dl/bundle.zip'' ''Tool'' True) demo_fs (parse_path ''/cache/Tool'') =
     (None, remove_at (remove_at demo_fs [''cache'', ''Tool'', ''.hidden''])
              [''cache'', ''Tool'', ''old.txt'']) \<and>
   scandir (snd (extract_archive tool_archive ''zip'' ''/dl/bundle.zip'' ''/cache/Tool''
       (remove_at (remove_at demo_fs [''cache'', ''Tool'', ''.hidden''])
          [''cache'', ''Tool'', ''old.txt''])))
     (parse_path ''/cache/Tool'') = [''README.txt'', ''Other-3.dmg'', ''Tool-1.2.dmg''] \<and>
   \<not> list_ex regex_special ''Tool'' \<and>
   re_match tool_archive ''Tool'' ''Other-3.dmg'' = Inr False \<and>
   re_match tool_archive ''Tool'' ''Tool-1.2.dmg'' = Inr True \<and>
   main tool_archive (demo_env ''/dl/bundle.zip'' ''Tool'' True) demo_fs =
     (Inr (),
      (demo_env ''/dl/bundle.zip'' ''Tool'' True)(''dmg_path'' \<mapsto> PStr ''/cache/Tool/Tool-1.2.dmg''),
      snd (extract_archive tool_archive ''zip'' ''/dl/bundle.zip'' ''/cache/Tool''
        (remove_at (remove_at demo_fs [''cache'', ''Tool'', ''.hidden''])
           [''cache'', ''Tool'', ''old.txt'']))) \<and>
   resolve_inputs ((demo_env ''/dl/bundle.zip'' ''Tool('' True)
       (''destination_path'' \<mapsto> PStr ''/cache/Tool'')) demo_fs =
     Inr (parse_path ''/dl/bundle.zip'', parse_path ''/cache/Tool'') \<and>
   list_ex regex_special ''Tool('' \<and>
   re_match tool_archive ''Tool('' ''Other-3.dmg'' =
     Inl (ReError (''Tool('' @ ''.*'' @ [CHR 0x5C] @ ''.dmg'')) \<and>
   main tool_archive ((demo_env ''/dl/bundle.zip'' ''Tool('' True)
       (''destination_path'' \<mapsto> PStr ''/cache/Tool'')) demo_fs =
     (Inl (WrappedError (ReError (''Tool('' @ ''.*'' @ [CHR 0x5C] @ ''.dmg''))),
      (demo_env ''/dl/bundle.zip'' ''Tool('' True)(''destination_path'' \<mapsto> PStr ''/cache/Tool''),
      snd (extract_archive tool_archive ''zip'' ''/dl/bundle.zip'' ''/cache/Tool''
        (remove_at (remove_at demo_fs [''cache'', ''Tool'', ''.hidden''])
           [''cache'', ''Tool'', ''old.txt''])))"
proof -
  let ?env = "demo_env ''/dl/bundle.zip'' ''Tool'' True"
  let ?env2 = "(demo_env ''/dl/bundle.zip'' ''Tool('' True)(''destination_path'' \<mapsto> PStr ''/cache/Tool'')"
  let ?p = "parse_path ''/dl/bundle.zip''"
  let ?d = "parse_path ''/cache/Tool''"
  let ?fs1 = "remove_at (remove_at demo_fs [''cache'', ''Tool'', ''.hidden''])
              [''cache'', ''Tool'', ''old.txt'']"
  let ?fs3 = "snd (extract_archive tool_archive ''zip'' ''/dl/bundle.zip'' ''/cache/Tool'' ?fs1)"
  let ?pat = "''Tool('' @ ''.*'' @ [CHR 0x5C] @ ''.dmg''"
  have a: "resolve_inputs ?env demo_fs = Inr (?p, ?d)" by code_simp
  have b: "prepare_destination ?env demo_fs ?d = (None, ?fs1)" by code_simp
  have c: "rename ?fs1 ?p (new_pathname ?p) = Inr ?fs1" by code_simp
  have d: "suffix_of (name (new_pathname ?p)) \<noteq> ''.dmg''" by code_simp
  have s1: "path_str (new_pathname ?p) = ''/dl/bundle.zip''" by code_simp
  have s2: "path_str ?d = ''/cache/Tool''" by code_simp
  have e: "get_archive_format tool_archive (path_str (new_pathname ?p)) = Some ''zip''"
    by code_simp
  have f: "''zip'' \<in> set (map fst EXTNS)" by code_simp
  have g: "extract_archive tool_archive ''zip'' (path_str (new_pathname ?p)) (path_str ?d) ?fs1 =
    (None, ?fs3)"
    unfolding s1 s2 by (simp add: tool_archive_def)
  have h: "?env ''NAME'' = Some (PStr ''Tool'')" by (simp add: demo_env_def)
  have i: "\<not> list_ex regex_special ''Tool''" by code_simp
  have l: "scandir ?fs3 ?d = [''README.txt'', ''Other-3.dmg'', ''Tool-1.2.dmg'']" by code_simp
  have r1: "re_match tool_archive ''Tool'' ''Other-3.dmg'' = Inr False" by code_simp
  have r2: "re_match tool_archive ''Tool'' ''Tool-1.2.dmg'' = Inr True" by code_simp
  have m: "find (\<lambda>n. suffix ''.dmg'' n \<and> re_match tool_archive ''Tool'' n \<noteq> Inr False)
      [''README.txt'', ''Other-3.dmg'', ''Tool-1.2.dmg''] = Some ''Tool-1.2.dmg''"
    by code_simp
  have n: "path_str (child ?d ''Tool-1.2.dmg'') = ''/cache/Tool/Tool-1.2.dmg''" by code_simp
  have w1: "main tool_archive ?env demo_fs =
     (Inr (), ?env(''dmg_path'' \<mapsto> PStr ''/cache/Tool/Tool-1.2.dmg''), ?fs3)"
    using locate_dmg_after_extraction[where env = ?env, OF a b c d e f g h, THEN conjunct1]
    unfolding py_str.simps l m by (simp add: r2 n)
  have a2: "resolve_inputs ?env2 demo_fs = Inr (?p, ?d)" by code_simp
  have b2: "prepare_destination ?env2 demo_fs ?d = (None, ?fs1)" by code_simp
  have h2: "?env2 ''NAME'' = Some (PStr ''Tool('')" by (simp add: demo_env_def)
  have i2: "list_ex regex_special ''Tool(''" by code_simp
  have r3: "re_match tool_archive ''Tool('' ''Other-3.dmg'' = Inl (ReError ?pat)" by code_simp
  have m2: "find (\<lambda>n. suffix ''.dmg'' n \<and> re_match tool_archive ''Tool('' n \<noteq> Inr False)
      [''README.txt'', ''Other-3.dmg'', ''Tool-1.2.dmg''] = Some ''Other-3.dmg''"
    by code_simp
  have w2: "main tool_archive ?env2 demo_fs = (Inl (WrappedError (ReError ?pat)), ?env2, ?fs3)"
    using locate_dmg_after_extraction[where env = ?env2, OF a2 b2 c d e f g h2, THEN conjunct1]
    unfolding py_str.simps l m2 by (simp add: r3)
  from a b l i r1 r2 w1 a2 i2 r3 w2 show ?thesis by (intro conjI)
qed

subsection \<open>The new path, the purge of a subdirectory (C1, C2, C7)\<close>

lemma str_split_no_sep: "sep \<notin> set s \<Longrightarrow> str_split sep s = [s]"
  by (induction s) auto

lemma str_split_nonempty: "str_split sep s \<noteq> []"
  by (induction s) (auto split: list.splits)

lemma hd_str_split: "hd (str_split sep s) = takeWhile (\<lambda>c. c \<noteq> sep) s"
proof (induction s)
  case Nil
  show ?case by simp
next
  case (Cons c s)
  then show ?case using str_split_nonempty[of sep s] by (cases "str_split sep s") auto
qed

lemma new_pathname_absolute:
  "root p \<noteq> [] \<Longrightarrow>
   new_pathname p = join (parent p) (parse_path (takeWhile (\<lambda>c. c \<noteq> CHR ''?'') (name p)))"
  by (simp add: new_pathname_def join_def parent_def hd_str_split)

lemma parse_path_component:
  assumes "CHR ''/'' \<notin> set nm" and "nm \<noteq> []" and "nm \<noteq> ''.''"
  shows "parse_path nm = \<lparr>root = [], parts = [nm]\<rparr>"
proof -
  from assms(1,2) have "root_of nm = []"
    by (cases nm) (auto simp: root_of_def)
  with assms show ?thesis by (simp add: parse_path_def str_split_no_sep)
qed

lemma new_pathname_absolute_unchanged:
  assumes "root p \<noteq> []" and "parts p \<noteq> []" and "CHR ''?'' \<notin> set (name p)"
    and "CHR ''/'' \<notin> set (name p)" and "name p \<noteq> []" and "name p \<noteq> ''.''"
  shows "new_pathname p = p"
proof -
  have t: "takeWhile (\<lambda>c. c \<noteq> CHR ''?'') (name p) = name p"
    using assms(3) by (auto simp: takeWhile_eq_all_conv)
  have "new_pathname p = join (parent p) (parse_path (name p))"
    using new_pathname_absolute[OF assms(1)] unfolding t .
  also have "\<dots> = join (parent p) \<lparr>root = [], parts = [name p]\<rparr>"
    using assms(4,5,6) by (simp add: parse_path_component)
  also have "\<dots> = p"
    using assms(2) by (simp add: join_def parent_def name_def)
  finally show ?thesis .
qed

lemma purge_unlink_failure:
  "\<not> (is_dir fs p \<and> \<not> is_symlink fs p) \<Longrightarrow> unlink fs p = Inl e \<Longrightarrow>
   purge fs (p # rest) = (Some (CleanupError (path_str p) (strerror e)), fs)"
  by auto

lemma purge_directory_NameError:
  "is_dir fs p \<Longrightarrow> \<not> is_symlink fs p \<Longrightarrow>
   purge fs (p # rest) = (Some (Uncaught (NameError ''path'')), fs)"
  by simp

text \<open>
  Claim C1 says that the purge removes every entry of the destination, subdirectories
  recursively. The source does not get that far: for a subdirectory it evaluates
  \<^verbatim>\<open>shutil.rmtree(path)\<close> with an unbound name (line 117). On the destination
  \<open>/cache/App\<close>, which lists a file, a subdirectory and a hidden file, the file is
  unlinked, then \<^verbatim>\<open>NameError\<close> leaves \<^verbatim>\<open>main\<close> (it is neither an \<^verbatim>\<open>OSError\<close> nor inside the
  \<^verbatim>\<open>try\<close> of line 125), and the subdirectory and what follows it stay. Files and
  symbolic links are unlinked as the claim says, and a failing \<^verbatim>\<open>unlink\<close> gives the
  error of line 121 with the path (\<open>purge_unlink_failure\<close>).
\<close>

theorem purge_subdirectory_NameError:
  "truthy (demo_env ''/dl/bundle.zip'' ''App'' True ''purge_destination'') \<and>
   glob_all demo_fs (parse_path ''/cache/App'') =
     [parse_path ''/cache/App/old.txt'', parse_path ''/cache/App/sub'',
      parse_path ''/cache/App/.hidden''] \<and>
   lstat demo_fs (parse_path ''/cache/App/old.txt'') = Some File \<and>
   lstat demo_fs (parse_path ''/cache/App/sub'') = Some (Dir [(''x'', File)]) \<and>
   fst (main empty_archive (demo_env ''/dl/bundle.zip'' ''App'' True) demo_fs) =
     Inl (Uncaught (NameError ''path'')) \<and>
   snd (snd (main empty_archive (demo_env ''/dl/bundle.zip'' ''App'' True) demo_fs)) =
     remove_at demo_fs [''cache'', ''App'', ''old.txt''] \<and>
   lstat (remove_at demo_fs [''cache'', ''App'', ''old.txt'']) (parse_path ''/cache/App/sub'') =
     Some (Dir [(''x'', File)])"
proof -
  let ?env = "demo_env ''/dl/bundle.zip'' ''App'' True"
  have a: "truthy (?env ''purge_destination'')" by (simp add: demo_env_def)
  have b: "glob_all demo_fs (parse_path ''/cache/App'') =
     [parse_path ''/cache/App/old.txt'', parse_path ''/cache/App/sub'',
      parse_path ''/cache/App/.hidden'']" by code_simp
  have c: "lstat demo_fs (parse_path ''/cache/App/old.txt'') = Some File" by code_simp
  have d: "lstat demo_fs (parse_path ''/cache/App/sub'') = Some (Dir [(''x'', File)])" by code_simp
  have e: "fst (main empty_archive ?env demo_fs) = Inl (Uncaught (NameError ''path''))"
    by code_simp
  have f: "snd (snd (main empty_archive ?env demo_fs)) =
     remove_at demo_fs [''cache'', ''App'', ''old.txt'']" by code_simp
  have g: "lstat (remove_at demo_fs [''cache'', ''App'', ''old.txt'']) (parse_path ''/cache/App/sub'') =
     Some (Dir [(''x'', File)])" by code_simp
  from a b c d e f g show ?thesis by (intro conjI)
qed

text \<open>
  Claim C2 says that the renamed path lies in the directory of the source, under the
  name cut at the first \<open>?\<close>. The source builds it with
  \<^verbatim>\<open>pathname.joinpath(pathname.parent, ...)\<close>, which appends the parent to the path itself
  unless the parent is absolute. For an absolute source the result is as the claim
  says (\<open>new_pathname_absolute\<close>); for the relative source \<open>dl/app.zip?sig=1\<close> it is
  \<open>dl/app.zip?sig=1/dl/app.zip\<close>, a path below the source file, the renaming fails
  with \<open>ENOTDIR\<close>, and the file is not renamed to \<open>dl/app.zip\<close>.
\<close>

theorem relative_pathname_query_rename_fails:
  "exists demo_fs (parse_path ''dl/app.zip?sig=1'') \<and>
   parent (parse_path ''dl/app.zip?sig=1'') = parse_path ''dl'' \<and>
   hd (str_split CHR ''?'' (name (parse_path ''dl/app.zip?sig=1''))) = ''app.zip'' \<and>
   new_pathname (parse_path ''dl/app.zip?sig=1'') =
     \<lparr>root = [], parts = [''dl'', ''app.zip?sig=1'', ''dl'', ''app.zip'']\<rparr> \<and>
   path_str (new_pathname (parse_path ''dl/app.zip?sig=1'')) = ''dl/app.zip?sig=1/dl/app.zip'' \<and>
   fst (main empty_archive (demo_env ''dl/app.zip?sig=1'' ''App'' False) demo_fs) =
     Inl (WrappedError (OSError ENOTDIR)) \<and>
   snd (snd (main empty_archive (demo_env ''dl/app.zip?sig=1'' ''App'' False) demo_fs)) = demo_fs \<and>
   lstat demo_fs (parse_path ''dl/app.zip'') = None"
proof -
  let ?env = "demo_env ''dl/app.zip?sig=1'' ''App'' False"
  let ?p = "parse_path ''dl/app.zip?sig=1''"
  have a: "exists demo_fs ?p" by code_simp
  have b: "parent ?p = parse_path ''dl''" by code_simp
  have c: "hd (str_split CHR ''?'' (name ?p)) = ''app.zip''" by code_simp
  have d: "new_pathname ?p = \<lparr>root = [], parts = [''dl'', ''app.zip?sig=1'', ''dl'', ''app.zip'']\<rparr>"
    by code_simp
  have e: "path_str (new_pathname ?p) = ''dl/app.zip?sig=1/dl/app.zip''" by code_simp
  have f: "fst (main empty_archive ?env demo_fs) = Inl (WrappedError (OSError ENOTDIR))"
    by code_simp
  have g: "snd (snd (main empty_archive ?env demo_fs)) = demo_fs" by code_simp
  have h: "lstat demo_fs (parse_path ''dl/app.zip'') = None" by code_simp
  from a b c d e f g h show ?thesis by (intro conjI)
qed

text \<open>
  Claim C7 says that for a name without \<open>?\<close> the renamed path is the source path and
  the renaming changes nothing. For an absolute source this holds
  (\<open>new_pathname_absolute_unchanged\<close>); for the relative source \<open>app.dmg\<close> the path
  computed at line 126 is \<open>app.dmg/app.dmg\<close>, not the source path, and the invocation
  fails at the renaming.
\<close>

theorem relative_pathname_not_a_noop:
  "exists demo_fs (parse_path ''app.dmg'') \<and>
   CHR ''?'' \<notin> set (name (parse_path ''app.dmg'')) \<and>
   new_pathname (parse_path ''app.dmg'') = \<lparr>root = [], parts = [''app.dmg'', ''app.dmg'']\<rparr> \<and>
   new_pathname (parse_path ''app.dmg'') \<noteq> parse_path ''app.dmg'' \<and>
   path_str (new_pathname (parse_path ''app.dmg'')) = ''app.dmg/app.dmg'' \<and>
   fst (main empty_archive (demo_env ''app.dmg'' ''App'' False) demo_fs) =
     Inl (WrappedError (OSError ENOTDIR)) \<and>
   snd (snd (main empty_archive (demo_env ''app.dmg'' ''App'' False) demo_fs)) = demo_fs"
proof -
  let ?env = "demo_env ''app.dmg'' ''App'' False"
  let ?p = "parse_path ''app.dmg''"
  have a: "exists demo_fs ?p" by code_simp
  have b: "CHR ''?'' \<notin> set (name ?p)" by code_simp
  have c: "new_pathname ?p = \<lparr>root = [], parts = [''app.dmg'', ''app.dmg'']\<rparr>" by code_simp
  have d: "new_pathname ?p \<noteq> ?p" by code_simp
  have e: "path_str (new_pathname ?p) = ''app.dmg/app.dmg''" by code_simp
  have f: "fst (main empty_archive ?env demo_fs) = Inl (WrappedError (OSError ENOTDIR))"
    by code_simp
  have g: "snd (snd (main empty_archive ?env demo_fs)) = demo_fs" by code_simp
  from a b c d e f g show ?thesis by (intro conjI)
qed

end
